theory Spec2Isabelle
  imports Complex_Main "HOL-Library.Word"
begin

section \<open>Feature model\<close>

text \<open>
  The post-processors work on mapnik features. The library itself is not part of the
  repository, so the containers below follow the data model of the specification: a
  feature is a numeric identifier, an ordered sequence of geometries and a mapping from
  attribute keys to attribute values. A C++ double is modelled as the real number it
  holds (no NaN, no infinities in the data). The arithmetic of the scorers rounds after
  every operation, as the double arithmetic of the source does; the curve approximator
  and the geometry code are written in exact arithmetic.
\<close>

datatype val =
    value_null
  | value_integer int
  | value_double real
  | value_bool bool
  | value_string string

datatype cmd = SEG_MOVETO | SEG_LINETO | SEG_CLOSE

datatype geom_type = Unknown | Point | LineString | Polygon

record geometry =
  gtype :: geom_type
  verts :: "(real \<times> real \<times> cmd) list"

record feature =
  fid :: int
  paths :: "geometry list"
  attrs :: "(string \<times> val) list"

record box2d =
  minx :: real
  miny :: real
  maxx :: real
  maxy :: real

text \<open>
  Modelled from the spec: mapnik's attribute interface (existence test, lookup by key,
  in-place replacement, insertion of new keys), which the repository only calls. A lookup
  of a missing key yields the null value. \<open>put\<close> is only ever called here on a key
  taken from the feature's own iteration.
\<close>

definition has_key :: "feature \<Rightarrow> string \<Rightarrow> bool" where
  "has_key f k = (k \<in> fst ` set (attrs f))"

definition get :: "feature \<Rightarrow> string \<Rightarrow> val" where
  "get f k = (case map_of (attrs f) k of None \<Rightarrow> value_null | Some v \<Rightarrow> v)"

fun update_attr :: "string \<Rightarrow> val \<Rightarrow> (string \<times> val) list \<Rightarrow> (string \<times> val) list" where
  "update_attr k v [] = [(k, v)]"
| "update_attr k v (p # ps) = (if fst p = k then (k, v) # ps else p # update_attr k v ps)"

definition put :: "string \<Rightarrow> val \<Rightarrow> feature \<Rightarrow> feature" where
  "put k v f = f\<lparr>attrs := update_attr k v (attrs f)\<rparr>"

definition put_new :: "string \<Rightarrow> val \<Rightarrow> feature \<Rightarrow> feature" where
  "put_new k v f = f\<lparr>attrs := update_attr k v (attrs f)\<rparr>"

text \<open>
  Modelled from the spec: \<open>box2d::expand_to_include\<close>, the union of two envelopes.
\<close>

definition expand_to_include :: "box2d \<Rightarrow> box2d \<Rightarrow> box2d" where
  "expand_to_include r b =
     \<lparr>minx = min (minx r) (minx b), miny = min (miny r) (miny b),
      maxx = max (maxx r) (maxx b), maxy = max (maxy r) (maxy b)\<rparr>"

section \<open>Unionizer: curve approximation\<close>

datatype union_heuristic = GREEDY | OBTUSE | ACUTE

datatype tag_strategy = INTERSECT | ACCUMULATE

text \<open>
  \<open>struct curve_approximator\<close>: the start point, the remaining budget in each axis,
  the running total of squared lengths and the list of weighted offsets.
\<close>

record curve_approximator =
  m_x :: real
  m_y :: real
  m_consume_x :: real
  m_consume_y :: real
  m_total_length :: real
  m_points :: "(real \<times> real \<times> real) list"

definition new_curve_approximator :: "real \<Rightarrow> real \<Rightarrow> real \<Rightarrow> real \<Rightarrow> curve_approximator" where
  "new_curve_approximator x y consume_x consume_y =
     \<lparr>m_x = x, m_y = y, m_consume_x = consume_x, m_consume_y = consume_y,
      m_total_length = 0, m_points = []\<rparr>"

text \<open>
  \<open>curve_approximator::consume\<close>. The result is the returned flag (more points are
  wanted) and the approximator after the call. The two divisions have a positive
  divisor as long as the budgets start non-negative: a clip happens only when the
  difference exceeds the remaining budget, which never goes below 0.
\<close>

definition consume :: "real \<Rightarrow> real \<Rightarrow> curve_approximator \<Rightarrow> bool \<times> curve_approximator" where
  "consume x y a =
     (let x_offset = m_x a - x;
          y_offset = m_y a - y;
          x_diff = \<bar>x_offset\<bar>;
          y_diff = \<bar>y_offset\<bar>;
          clip_x = (m_consume_x a - x_diff < 0);
          y_diff = (if clip_x then (y_diff / x_diff) * m_consume_x a else y_diff);
          x_diff = (if clip_x then m_consume_x a else x_diff);
          clip_y = (m_consume_y a - y_diff < 0);
          x_diff = (if clip_y then (x_diff / y_diff) * m_consume_y a else x_diff);
          y_diff = (if clip_y then m_consume_y a else y_diff);
          consume_x = m_consume_x a - x_diff;
          consume_y = m_consume_y a - y_diff;
          x_offset = (if x_offset < 0 then - 1 * x_diff else x_diff);
          y_offset = (if y_offset < 0 then - 1 * y_diff else y_diff);
          sq = x_offset * x_offset + y_offset * y_offset
      in (consume_x > 0 \<and> consume_y > 0,
          a\<lparr>m_consume_x := consume_x, m_consume_y := consume_y,
            m_points := m_points a @ [(x_offset, y_offset, sq)],
            m_total_length := m_total_length a + sq\<rparr>))"

text \<open>\<open>curve_approximator::get_approximation\<close>, with \<open>sq_length_tolerance = .00001\<close>.\<close>

definition get_approximation :: "curve_approximator \<Rightarrow> real \<times> real" where
  "get_approximation a =
     (if \<bar>m_total_length a\<bar> < 1 / 100000 then (0, 0)
      else fold (\<lambda>(px, py, pl) (x, y).
                   (x + px * pl * (1 / m_total_length a), y + py * pl * (1 / m_total_length a)))
             (m_points a) (0, 0))"

text \<open>
  The loop of the candidate's constructor under \<open>OBTUSE\<close> and \<open>ACUTE\<close>: the
  vertices after the end point are consumed, moving inward, until \<open>consume\<close> returns
  false.
\<close>

fun consume_loop :: "(real \<times> real) list \<Rightarrow> curve_approximator \<Rightarrow> curve_approximator" where
  "consume_loop [] a = a"
| "consume_loop ((x, y) # vs) a =
     (case consume x y a of (wanted, a') \<Rightarrow> if wanted then consume_loop vs a' else a')"

section \<open>Unionizer: candidates and scores\<close>

datatype position = FRONT | BACK

text \<open>
  \<open>struct candidate\<close>. The shared pointer \<open>m_parent\<close> is the address of the feature
  in the store of features (see below); two candidates have the same parent when the
  addresses are equal.
\<close>

record candidate =
  m_position :: position
  m_index :: nat
  m_parent :: nat
  m_directional :: bool
  m_x :: real
  m_y :: real
  m_dx :: real
  m_dy :: real

text \<open>
  The direction that the constructor computes under \<open>OBTUSE\<close> and \<open>ACUTE\<close> for the
  end of a linestring with the given vertices and the budget \<open>xy_distance\<close>. The
  constructor is only called on linestrings with more than one vertex; there is no
  end point to start from (\<open>None\<close>) when there is no vertex.
\<close>

definition candidate_direction ::
  "position \<Rightarrow> (real \<times> real) list \<Rightarrow> real \<times> real \<Rightarrow> (real \<times> real) option"
where
  "candidate_direction pos vs xy_distance =
     (case (if pos = FRONT then vs else rev vs) of
        [] \<Rightarrow> None
      | p # rest \<Rightarrow>
          Some (get_approximation
                  (consume_loop rest
                     (new_curve_approximator (fst p) (snd p)
                        (fst xy_distance) (snd xy_distance)))))"

type_synonym score_t = "8 word"

type_synonym couple_t = "candidate \<times> candidate"

text \<open>\<open>make_couple\<close>: the compatibility filter.\<close>

definition make_couple :: "candidate \<Rightarrow> candidate \<Rightarrow> couple_t option" where
  "make_couple a b =
     (if m_index a = m_index b \<and> m_parent a = m_parent b then None
      else if m_directional a \<noteq> m_directional b then None
      else if m_directional a \<and> m_position a = m_position b then None
      else Some (a, b))"

text \<open>\<open>greedy_score\<close>; \<open>MAX_SCORE / 2\<close> is the integer division 255 / 2.\<close>

definition greedy_score :: "couple_t \<Rightarrow> score_t" where
  "greedy_score couple =
     (if m_position (fst couple) \<noteq> m_position (snd couple) then 0
      else if m_position (fst couple) = BACK then 127
      else 255)"

text \<open>
  The conversion of a double to \<open>unsigned char\<close> on return: the value is truncated
  toward zero; the conversion is undefined when the truncated value does not fit, and
  the model returns \<open>None\<close> there.
\<close>

definition truncate_toward_zero :: "real \<Rightarrow> int" where
  "truncate_toward_zero v = (if 0 \<le> v then \<lfloor>v\<rfloor> else \<lceil>v\<rceil>)"

definition to_score :: "real \<Rightarrow> score_t option" where
  "to_score v = (if - 1 < v \<and> v < 256 then Some (word_of_int (truncate_toward_zero v)) else None)"

definition degenerate :: "couple_t \<Rightarrow> bool" where
  "degenerate couple =
     ((m_dx (fst couple) = 0 \<and> m_dy (fst couple) = 0)
      \<or> (m_dx (snd couple) = 0 \<and> m_dy (snd couple) = 0))"

text \<open>
  Double arithmetic. An operation on doubles returns the exact result rounded to the
  nearest double, ties to even: a double has 53 significant bits, so the spacing of
  the doubles around \<open>x\<close> is \<open>quantum x\<close>, with the binary exponent of \<open>x\<close> not
  below -1022 (gradual underflow). A result whose rounded magnitude reaches \<open>2^1024\<close>
  is an infinity; \<open>None\<close> stands for an infinity or a NaN, and an addition or a
  multiplication with such an operand gives one again. Every operation is rounded on
  its own (no fused multiply-add).
\<close>

definition exponent :: "real \<Rightarrow> int" where
  "exponent x = \<lfloor>log 2 \<bar>x\<bar>\<rfloor>"

definition quantum :: "real \<Rightarrow> real" where
  "quantum x = 2 powi (max (exponent x) (- 1022) - 52)"

definition round_half_even :: "real \<Rightarrow> int" where
  "round_half_even q =
     (if q - of_int \<lfloor>q\<rfloor> < 1 / 2 then \<lfloor>q\<rfloor>
      else if 1 / 2 < q - of_int \<lfloor>q\<rfloor> then \<lfloor>q\<rfloor> + 1
      else if even \<lfloor>q\<rfloor> then \<lfloor>q\<rfloor>
      else \<lfloor>q\<rfloor> + 1)"

definition double_round :: "real \<Rightarrow> real option" where
  "double_round x =
     (if x = 0 then Some 0
      else if \<bar>of_int (round_half_even (x / quantum x)) * quantum x\<bar> < 2 powi 1024
      then Some (of_int (round_half_even (x / quantum x)) * quantum x)
      else None)"

definition dadd :: "real option \<Rightarrow> real option \<Rightarrow> real option" where
  "dadd a b =
     (case a of
        None \<Rightarrow> None
      | Some x \<Rightarrow> (case b of None \<Rightarrow> None | Some y \<Rightarrow> double_round (x + y)))"

definition dmul :: "real option \<Rightarrow> real option \<Rightarrow> real option" where
  "dmul a b =
     (case a of
        None \<Rightarrow> None
      | Some x \<Rightarrow> (case b of None \<Rightarrow> None | Some y \<Rightarrow> double_round (x * y)))"

text \<open>
  \<open>obtuse_score\<close> and \<open>acute_score\<close>. \<open>dot\<close> is the local of that name,
  \<open>obtuse_value\<close> the double \<open>MAX_SCORE * ((dot + 1) * .5)\<close> that the return
  statement converts; an infinity or a NaN does not convert.
\<close>

definition dot :: "couple_t \<Rightarrow> real option" where
  "dot couple =
     dadd (dmul (Some (m_dx (fst couple))) (Some (m_dx (snd couple))))
          (dmul (Some (m_dy (fst couple))) (Some (m_dy (snd couple))))"

definition obtuse_value :: "couple_t \<Rightarrow> real option" where
  "obtuse_value couple = dmul (Some 255) (dmul (dadd (dot couple) (Some 1)) (Some (1 / 2)))"

definition obtuse_score :: "couple_t \<Rightarrow> score_t option" where
  "obtuse_score couple =
     (if degenerate couple then Some 255
      else (case obtuse_value couple of None \<Rightarrow> None | Some v \<Rightarrow> to_score v))"

definition acute_score :: "couple_t \<Rightarrow> score_t option" where
  "acute_score couple =
     (if degenerate couple then Some 255
      else map_option (\<lambda>s. 255 - s) (obtuse_score couple))"

text \<open>
  \<open>std::map<score_t, couple_t>\<close>: an association list with strictly increasing keys.
  \<open>emplace\<close> inserts only when the key is not there yet.
\<close>

fun emplace :: "score_t \<Rightarrow> couple_t \<Rightarrow> (score_t \<times> couple_t) list \<Rightarrow> (score_t \<times> couple_t) list" where
  "emplace k v [] = [(k, v)]"
| "emplace k v (p # ps) =
     (if k < fst p then (k, v) # p # ps
      else if k = fst p then p # ps
      else p # emplace k v ps)"

text \<open>
  \<open>candidate_comparator\<close>. The comparisons of attribute values are mapnik's
  \<open>operator<\<close> and \<open>operator>\<close>, the parameters \<open>val_less\<close> and
  \<open>val_greater\<close>. The store of features is \<open>h\<close>, the match tags are listed in the
  order of the \<open>std::set\<close>.
\<close>

fun compare_tags ::
  "(val \<Rightarrow> val \<Rightarrow> bool) \<Rightarrow> (val \<Rightarrow> val \<Rightarrow> bool) \<Rightarrow> string list \<Rightarrow> feature \<Rightarrow> feature \<Rightarrow> bool"
where
  "compare_tags val_less val_greater [] fa fb = False"
| "compare_tags val_less val_greater (tag # tags) fa fb =
     (if val_less (get fa tag) (get fb tag) then True
      else if val_greater (get fa tag) (get fb tag) then False
      else compare_tags val_less val_greater tags fa fb)"

definition candidate_comparator ::
  "(val \<Rightarrow> val \<Rightarrow> bool) \<Rightarrow> (val \<Rightarrow> val \<Rightarrow> bool) \<Rightarrow> string list \<Rightarrow> (nat \<Rightarrow> feature)
     \<Rightarrow> candidate \<Rightarrow> candidate \<Rightarrow> bool"
where
  "candidate_comparator val_less val_greater tags h a b =
     (if m_x a < m_x b then True
      else if m_x a > m_x b then False
      else if m_y a < m_y b then True
      else if m_y a > m_y b then False
      else compare_tags val_less val_greater tags (h (m_parent a)) (h (m_parent b)))"

text \<open>
  \<open>score_candidates\<close>. The multiset of candidates is the list of its elements in
  iteration order. The inner loop walks the candidates after the current one while the
  comparator does not put the current one before them.
\<close>

fun score_adjacent ::
  "(candidate \<Rightarrow> candidate \<Rightarrow> bool) \<Rightarrow> (couple_t \<Rightarrow> score_t option) \<Rightarrow> candidate
     \<Rightarrow> candidate list \<Rightarrow> (score_t \<times> couple_t) list \<Rightarrow> (score_t \<times> couple_t) list option"
where
  "score_adjacent cmp scorer c [] pairs = Some pairs"
| "score_adjacent cmp scorer c (n # rest) pairs =
     (if cmp c n then Some pairs
      else (case make_couple c n of
              None \<Rightarrow> score_adjacent cmp scorer c rest pairs
            | Some couple \<Rightarrow>
                (case scorer couple of
                   None \<Rightarrow> None
                 | Some sc \<Rightarrow> score_adjacent cmp scorer c rest (emplace sc couple pairs))))"

fun score_loop ::
  "(candidate \<Rightarrow> candidate \<Rightarrow> bool) \<Rightarrow> (couple_t \<Rightarrow> score_t option) \<Rightarrow> candidate list
     \<Rightarrow> (score_t \<times> couple_t) list \<Rightarrow> (score_t \<times> couple_t) list option"
where
  "score_loop cmp scorer [] pairs = Some pairs"
| "score_loop cmp scorer (c # rest) pairs =
     (case score_adjacent cmp scorer c rest pairs of
        None \<Rightarrow> None
      | Some pairs' \<Rightarrow> score_loop cmp scorer rest pairs')"

definition score_candidates ::
  "(candidate \<Rightarrow> candidate \<Rightarrow> bool) \<Rightarrow> candidate list \<Rightarrow> (couple_t \<Rightarrow> score_t option)
     \<Rightarrow> (score_t \<times> couple_t) list option"
where
  "score_candidates cmp candidates scorer = score_loop cmp scorer candidates []"

text \<open>
  The compatible pairs of the adjacency groups, as the specification describes them:
  every pair of a candidate with a later one of its group that the filter accepts.
\<close>

fun adjacent_couples :: "(candidate \<Rightarrow> candidate \<Rightarrow> bool) \<Rightarrow> candidate \<Rightarrow> candidate list \<Rightarrow> couple_t list" where
  "adjacent_couples cmp c [] = []"
| "adjacent_couples cmp c (n # rest) =
     (if cmp c n then []
      else (case make_couple c n of
              None \<Rightarrow> adjacent_couples cmp c rest
            | Some couple \<Rightarrow> couple # adjacent_couples cmp c rest))"

fun compatible_couples :: "(candidate \<Rightarrow> candidate \<Rightarrow> bool) \<Rightarrow> candidate list \<Rightarrow> couple_t list" where
  "compatible_couples cmp [] = []"
| "compatible_couples cmp (c # rest) = adjacent_couples cmp c rest @ compatible_couples cmp rest"

section \<open>Unionizer: splicing\<close>

text \<open>
  The features of a layer are held through shared pointers, and two candidates may point
  to the same feature. The store maps the address of a feature to the feature; a layer
  is a list of addresses.
\<close>

type_synonym store = "nat \<Rightarrow> feature"

text \<open>
  Modelled from the spec: the vertex access of mapnik's geometry. \<open>vertex\<close> yields
  \<open>None\<close> for \<open>SEG_END\<close>, the answer past the last vertex; \<open>line_to\<close> and
  \<open>move_to\<close> append a vertex with the command. Indexing the geometries of a feature
  out of range and erasing at or past the end are undefined: \<open>None\<close>.
\<close>

definition vertex :: "geometry \<Rightarrow> nat \<Rightarrow> (real \<times> real \<times> cmd) option" where
  "vertex g i = (if i < length (verts g) then Some (verts g ! i) else None)"

definition line_to :: "real \<Rightarrow> real \<Rightarrow> geometry \<Rightarrow> geometry" where
  "line_to x y g = g\<lparr>verts := verts g @ [(x, y, SEG_LINETO)]\<rparr>"

definition move_to :: "real \<Rightarrow> real \<Rightarrow> geometry \<Rightarrow> geometry" where
  "move_to x y g = g\<lparr>verts := verts g @ [(x, y, SEG_MOVETO)]\<rparr>"

definition get_geometry :: "feature \<Rightarrow> nat \<Rightarrow> geometry option" where
  "get_geometry f i = (if i < length (paths f) then Some (paths f ! i) else None)"

definition erase :: "nat \<Rightarrow> 'a list \<Rightarrow> 'a list option" where
  "erase i xs = (if i < length xs then Some (take i xs @ drop (Suc i) xs) else None)"

definition erase_geometry :: "nat \<Rightarrow> nat \<Rightarrow> store \<Rightarrow> store option" where
  "erase_geometry p i h =
     (case erase i (paths (h p)) of
        None \<Rightarrow> None
      | Some ps \<Rightarrow> Some (h(p := (h p)\<lparr>paths := ps\<rparr>)))"

definition set_geometry :: "nat \<Rightarrow> geometry \<Rightarrow> feature \<Rightarrow> feature" where
  "set_geometry i g f = f\<lparr>paths := (paths f)[i := g]\<rparr>"

definition push_back :: "geometry \<Rightarrow> feature \<Rightarrow> feature" where
  "push_back g f = f\<lparr>paths := paths f @ [g]\<rparr>"

text \<open>
  The three vertex loops of \<open>do_union\<close>: \<open>src\<close> from vertex 1 on in order, \<open>src\<close>
  from the vertex before the last down to vertex 0, and (front to front) the whole of
  \<open>src1\<close> in reverse, the first vertex written with \<open>move_to\<close>.
\<close>

definition append_forward :: "geometry \<Rightarrow> geometry \<Rightarrow> geometry" where
  "append_forward src dst =
     fold (\<lambda>i d. case vertex src i of None \<Rightarrow> d | Some (x, y, c) \<Rightarrow> line_to x y d)
       [1..<length (verts src)] dst"

definition append_backward :: "geometry \<Rightarrow> geometry \<Rightarrow> geometry" where
  "append_backward src dst =
     fold (\<lambda>i d. case vertex src ((length (verts src) - i) - 1) of
                    None \<Rightarrow> d
                  | Some (x, y, c) \<Rightarrow> line_to x y d)
       [1..<length (verts src)] dst"

definition start_reversed :: "geometry \<Rightarrow> geometry \<Rightarrow> geometry" where
  "start_reversed src1 dst =
     fold (\<lambda>i d. case vertex src1 ((length (verts src1) - i) - 1) of
                    None \<Rightarrow> d
                  | Some (x, y, c) \<Rightarrow> if i = 0 then move_to x y d else line_to x y d)
       [0..<length (verts src1)] dst"

text \<open>
  \<open>do_union\<close>. The couple is passed by reference and may be swapped, so it is returned
  with the store. \<open>new_geom\<close> is mapnik's default-constructed geometry, the start of the
  linestring that the front-to-front case builds.
\<close>

definition do_union :: "geometry \<Rightarrow> couple_t \<Rightarrow> store \<Rightarrow> (couple_t \<times> store) option" where
  "do_union new_geom couple0 h =
     (if m_position (fst couple0) \<noteq> m_position (snd couple0)
      then
        (let couple = (if m_position (snd couple0) = BACK then (snd couple0, fst couple0)
                       else couple0);
             a = fst couple; b = snd couple
         in case get_geometry (h (m_parent a)) (m_index a) of
              None \<Rightarrow> None
            | Some dst \<Rightarrow>
                (case get_geometry (h (m_parent b)) (m_index b) of
                   None \<Rightarrow> None
                 | Some src \<Rightarrow>
                     map_option (Pair couple)
                       (erase_geometry (m_parent b) (m_index b)
                          (h(m_parent a :=
                               set_geometry (m_index a) (append_forward src dst) (h (m_parent a)))))))
      else if m_position (fst couple0) = BACK
      then
        (let a = fst couple0; b = snd couple0
         in case get_geometry (h (m_parent a)) (m_index a) of
              None \<Rightarrow> None
            | Some dst \<Rightarrow>
                (case get_geometry (h (m_parent b)) (m_index b) of
                   None \<Rightarrow> None
                 | Some src \<Rightarrow>
                     map_option (Pair couple0)
                       (erase_geometry (m_parent b) (m_index b)
                          (h(m_parent a :=
                               set_geometry (m_index a) (append_backward src dst) (h (m_parent a)))))))
      else
        (let a = fst couple0; b = snd couple0
         in case get_geometry (h (m_parent a)) (m_index a) of
              None \<Rightarrow> None
            | Some src1 \<Rightarrow>
                (case get_geometry (h (m_parent b)) (m_index b) of
                   None \<Rightarrow> None
                 | Some src2 \<Rightarrow>
                     (case erase_geometry (m_parent a) (m_index a) h of
                        None \<Rightarrow> None
                      | Some h1 \<Rightarrow>
                          (case erase_geometry (m_parent b) (m_index b) h1 of
                             None \<Rightarrow> None
                           | Some h2 \<Rightarrow>
                               Some (couple0,
                                     h2(m_parent a :=
                                          push_back
                                            (append_forward src2 (start_reversed src1 new_geom))
                                            (h2 (m_parent a)))))))))"

section \<open>Unionizer: tags\<close>

text \<open>
  \<open>sanitize_tags\<close>. The first loop walks the keys of the first feature and reads the
  values through the pointers; the second loop, which only runs under \<open>ACCUMULATE\<close>,
  walks the keys of the second feature. The inequality of two attribute values is
  mapnik's \<open>operator!=\<close>, the parameter \<open>differs\<close>.
\<close>

fun drop_tags ::
  "(val \<Rightarrow> val \<Rightarrow> bool) \<Rightarrow> tag_strategy \<Rightarrow> string list \<Rightarrow> nat \<Rightarrow> nat \<Rightarrow> store \<Rightarrow> store"
where
  "drop_tags differs strategy [] a b h = h"
| "drop_tags differs strategy (key # keys) a b h =
     (if \<not> has_key (h b) key
      then (if strategy = INTERSECT
            then drop_tags differs strategy keys a b (h(a := put key value_null (h a)))
            else drop_tags differs strategy keys a b h)
      else if differs (get (h a) key) (get (h b) key)
      then drop_tags differs strategy keys a b (h(a := put key value_null (h a)))
      else drop_tags differs strategy keys a b h)"

fun take_tags :: "string list \<Rightarrow> nat \<Rightarrow> nat \<Rightarrow> store \<Rightarrow> store" where
  "take_tags [] a b h = h"
| "take_tags (key # keys) a b h =
     (if \<not> has_key (h a) key
      then take_tags keys a b (h(a := put_new key (get (h b) key) (h a)))
      else take_tags keys a b h)"

definition sanitize_tags ::
  "(val \<Rightarrow> val \<Rightarrow> bool) \<Rightarrow> tag_strategy \<Rightarrow> couple_t \<Rightarrow> store \<Rightarrow> store"
where
  "sanitize_tags differs strategy couple h =
     (let a = m_parent (fst couple); b = m_parent (snd couple);
          h1 = drop_tags differs strategy (map fst (attrs (h a))) a b h
      in if strategy = ACCUMULATE then take_tags (map fst (attrs (h1 b))) a b h1 else h1)"

text \<open>
  The reconciliation that the specification describes for \<open>accumulate\<close>, on two
  separate features: the full intersect pass (a key of the destination that the other
  feature lacks, or whose value differs, becomes null), then every key of the other
  feature that the destination does not have is copied.
\<close>

definition intersect_pass :: "(val \<Rightarrow> val \<Rightarrow> bool) \<Rightarrow> feature \<Rightarrow> feature \<Rightarrow> feature" where
  "intersect_pass differs fa fb =
     fa\<lparr>attrs := map (\<lambda>(k, v). if has_key fb k \<and> \<not> differs v (get fb k) then (k, v)
                               else (k, value_null))
                    (attrs fa)\<rparr>"

definition accumulate_spec :: "(val \<Rightarrow> val \<Rightarrow> bool) \<Rightarrow> feature \<Rightarrow> feature \<Rightarrow> feature" where
  "accumulate_spec differs fa fb =
     fold (\<lambda>(k, v) f. if has_key f k then f else put_new k v f) (attrs fb)
       (intersect_pass differs fa fb)"

section \<open>Unionizer: one round of unions\<close>

text \<open>
  \<open>union_candidates\<close>. The loop state is the store, the set \<open>unioned\<close> of feature
  ids, and the list of the couples that were spliced so far, which the source does not
  keep: it is recorded to state which merges a round performs. The result is
  \<open>unioned.size()\<close> with the final store and that list. The parameter \<open>ids_tag\<close>
  is not used by the source; \<open>differs\<close> and \<open>new_geom\<close> are passed on to
  \<open>sanitize_tags\<close> and \<open>do_union\<close>.
\<close>

fun union_loop ::
  "(val \<Rightarrow> val \<Rightarrow> bool) \<Rightarrow> geometry \<Rightarrow> tag_strategy \<Rightarrow> (score_t \<times> couple_t) list \<Rightarrow> store \<Rightarrow> int set \<Rightarrow> couple_t list
     \<Rightarrow> (store \<times> int set \<times> couple_t list) option"
where
  "union_loop differs new_geom strategy [] h unioned spliced = Some (h, unioned, spliced)"
| "union_loop differs new_geom strategy (entry # rest) h unioned spliced =
     (if fid (h (m_parent (fst (snd entry)))) \<in> unioned
         \<or> fid (h (m_parent (snd (snd entry)))) \<in> unioned
      then union_loop differs new_geom strategy rest h unioned spliced
      else (case do_union new_geom (snd entry) h of
              None \<Rightarrow> None
            | Some (couple, h1) \<Rightarrow>
                (let h2 = sanitize_tags differs strategy couple h1
                 in union_loop differs new_geom strategy rest h2
                      (insert (fid (h2 (m_parent (snd couple))))
                         (insert (fid (h2 (m_parent (fst couple)))) unioned))
                      (spliced @ [couple]))))"

definition union_candidates ::
  "(val \<Rightarrow> val \<Rightarrow> bool) \<Rightarrow> geometry \<Rightarrow> (score_t \<times> couple_t) list \<Rightarrow> tag_strategy \<Rightarrow> string option \<Rightarrow> store
     \<Rightarrow> (nat \<times> store \<times> couple_t list) option"
where
  "union_candidates differs new_geom scored strategy ids_tag h =
     map_option (\<lambda>(h', unioned, spliced). (card unioned, h', spliced))
       (union_loop differs new_geom strategy scored h {} [])"

text \<open>\<open>cull\<close>: the features without geometry leave the layer.\<close>

definition cull :: "store \<Rightarrow> nat list \<Rightarrow> nat list" where
  "cull h layer = filter (\<lambda>p. paths (h p) \<noteq> []) layer"

text \<open>The number of spliced couples that involve the feature at an address, or an id.\<close>

definition merges_of_feature :: "nat \<Rightarrow> couple_t list \<Rightarrow> nat" where
  "merges_of_feature p spliced =
     length (filter (\<lambda>c. m_parent (fst c) = p \<or> m_parent (snd c) = p) spliced)"

definition merges_of_id :: "store \<Rightarrow> int \<Rightarrow> couple_t list \<Rightarrow> nat" where
  "merges_of_id h i spliced =
     length (filter (\<lambda>c. fid (h (m_parent (fst c))) = i \<or> fid (h (m_parent (snd c))) = i) spliced)"

text \<open>The ids of the features that a list of couples involves.\<close>

definition ids_of :: "store \<Rightarrow> couple_t list \<Rightarrow> int set" where
  "ids_of h sp =
     (\<lambda>c. fid (h (m_parent (fst c)))) ` set sp \<union> (\<lambda>c. fid (h (m_parent (snd c)))) ` set sp"

section \<open>Configuration\<close>

text \<open>
  The property tree is boost's. A tree is its own data and its children in order;
  the paths read here have no separators, so a path names a child. The typed getters
  with a default yield the default when the child is missing or its data does not
  convert; the conversions \<open>read_size_t\<close> and \<open>read_double\<close> are parameters.
\<close>

datatype ptree = Ptree (data: string) (children: "(string \<times> ptree) list")

datatype error =
    runtime_error string
  | ptree_bad_path string
  | datasource_error string

definition get_child_optional :: "ptree \<Rightarrow> string \<Rightarrow> ptree option" where
  "get_child_optional config path = map_of (children config) path"

definition get_string :: "ptree \<Rightarrow> string \<Rightarrow> string \<Rightarrow> string" where
  "get_string config path dflt =
     (case get_child_optional config path of None \<Rightarrow> dflt | Some t \<Rightarrow> data t)"

definition get_optional_string :: "ptree \<Rightarrow> string \<Rightarrow> string option" where
  "get_optional_string config path = map_option data (get_child_optional config path)"

definition get_converted :: "(string \<Rightarrow> 'a option) \<Rightarrow> ptree \<Rightarrow> string \<Rightarrow> 'a \<Rightarrow> 'a" where
  "get_converted conv config path dflt =
     (case get_child_optional config path of
        None \<Rightarrow> dflt
      | Some t \<Rightarrow> (case conv (data t) of None \<Rightarrow> dflt | Some v \<Rightarrow> v))"

definition child_values :: "ptree \<Rightarrow> string \<Rightarrow> string set" where
  "child_values config path =
     (case get_child_optional config path of
        None \<Rightarrow> {}
      | Some t \<Rightarrow> set (map (\<lambda>kv. data (snd kv)) (children t)))"

definition string_to_heuristic :: "(string \<times> union_heuristic) list" where
  "string_to_heuristic = [(''greedy'', GREEDY), (''obtuse'', OBTUSE), (''acute'', ACUTE)]"

definition string_to_strategy :: "(string \<times> tag_strategy) list" where
  "string_to_strategy = [(''intersect'', INTERSECT), (''accumulate'', ACCUMULATE)]"

record unionizer =
  m_heuristic :: union_heuristic
  m_strategy :: tag_strategy
  m_keep_ids_tag :: "string option"
  m_max_iterations :: nat
  m_match_tags :: "string set"
  m_preserve_direction_tags :: "string set"
  m_angle_union_sample_ratio :: real

text \<open>
  \<open>create_unionizer\<close>. A \<open>throw\<close> is the result \<open>Inl\<close>; the processor is only built
  by the final \<open>make_shared\<close>. The default of \<open>max_iterations\<close> is the largest
  \<open>size_t\<close>.
\<close>

definition create_unionizer ::
  "(string \<Rightarrow> nat option) \<Rightarrow> (string \<Rightarrow> real option) \<Rightarrow> ptree \<Rightarrow> error + unionizer"
where
  "create_unionizer read_size_t read_double config =
     (let requested_heuristic = get_string config ''union_heuristic'' ''greedy''
      in case map_of string_to_heuristic requested_heuristic of
           None \<Rightarrow>
             Inl (runtime_error
                    (requested_heuristic @ '' is not supported, try `greedy, obtuse or acute''
                       @ [CHR 0x27]))
         | Some heuristic \<Rightarrow>
             (let requested_strategy = get_string config ''tag_strategy'' ''intersect''
              in case map_of string_to_strategy requested_strategy of
                   None \<Rightarrow>
                     Inl (runtime_error
                            (requested_strategy @ '' is not supported, try `intersect''
                               @ [CHR 0x27]))
                 | Some strategy \<Rightarrow>
                     (let keep_ids_tag = get_optional_string config ''keep_ids_tag'';
                          max_iterations =
                            get_converted read_size_t config ''max_iterations''
                              18446744073709551615;
                          match = child_values config ''match_tags'';
                          direction = child_values config ''preserve_direction_tags'';
                          angle_union_sample_ratio =
                            get_converted read_double config ''angle_union_sample_ratio'' (1 / 10)
                      in if angle_union_sample_ratio \<le> 0 \<or> angle_union_sample_ratio > 1 / 2
                         then Inl (runtime_error
                                ''Please make sure 0 < angle_union_sample_ratio <= .5'')
                         else Inr \<lparr>m_heuristic = heuristic, m_strategy = strategy,
                                   m_keep_ids_tag = keep_ids_tag,
                                   m_max_iterations = max_iterations,
                                   m_match_tags = match,
                                   m_preserve_direction_tags = direction,
                                   m_angle_union_sample_ratio = angle_union_sample_ratio\<rparr>)))"

text \<open>
  The constructor of \<open>adminizer\<close>. \<open>config.get<std::string>("param_name")\<close> has no
  default and throws when the path is missing. The datasource cache is mapnik's:
  \<open>create_datasource\<close> is a parameter, and may itself fail.
\<close>

record 'ds adminizer =
  m_param_name :: string
  m_datasource :: 'ds

definition create_adminizer ::
  "((string \<times> string) list \<Rightarrow> error + 'ds) \<Rightarrow> ptree \<Rightarrow> error + 'ds adminizer"
where
  "create_adminizer create_datasource config =
     (case get_child_optional config ''param_name'' of
        None \<Rightarrow> Inl (ptree_bad_path ''param_name'')
      | Some t \<Rightarrow>
          (let params =
                 (case get_child_optional config ''datasource'' of
                    None \<Rightarrow> []
                  | Some d \<Rightarrow> map (\<lambda>kv. (fst kv, data (snd kv))) (children d))
           in case create_datasource params of
                Inl e \<Rightarrow> Inl e
              | Inr ds \<Rightarrow> Inr \<lparr>m_param_name = data t, m_datasource = ds\<rparr>))"

text \<open>Sample data: configurations.\<close>

definition leaf :: "string \<Rightarrow> ptree" where
  "leaf s = Ptree s []"

definition read_half :: "string \<Rightarrow> real option" where
  "read_half s = (if s = ''0.5'' then Some (1 / 2) else if s = ''0.75'' then Some (3 / 4) else None)"

text \<open>Sample data: stores of features.\<close>

definition no_feature :: feature where
  "no_feature = \<lparr>fid = 0, paths = [], attrs = []\<rparr>"

definition linestring :: "(real \<times> real) list \<Rightarrow> geometry" where
  "linestring ps =
     \<lparr>gtype = LineString,
      verts = (case ps of [] \<Rightarrow> []
               | p # qs \<Rightarrow> (fst p, snd p, SEG_MOVETO) # map (\<lambda>q. (fst q, snd q, SEG_LINETO)) qs)\<rparr>"

definition tag_store :: store where
  "tag_store =
     (\<lambda>p. no_feature)
       (1 := \<lparr>fid = 1, paths = [],
               attrs = [(''road'', value_string ''main''), (''ref'', value_string ''A1'')]\<rparr>,
        2 := \<lparr>fid = 2, paths = [],
               attrs = [(''road'', value_string ''main''), (''name'', value_string ''X'')]\<rparr>)"

definition road_store :: store where
  "road_store =
     (\<lambda>p. no_feature)
       (2 := \<lparr>fid = 2, paths = [linestring [(0, 0), (1, 0)]], attrs = []\<rparr>,
        3 := \<lparr>fid = 3, paths = [linestring [(1, 0), (2, 0)]], attrs = []\<rparr>,
        4 := \<lparr>fid = 4, paths = [linestring [(2, 0), (3, 0)]], attrs = []\<rparr>)"

definition fan_store :: store where
  "fan_store =
     (\<lambda>p. no_feature)
       (2 := \<lparr>fid = 2,
               paths = [linestring [(0, 0), (1, 0)], linestring [(0, 0), (0, 1)],
                        linestring [(5, 5), (6, 6)]],
               attrs = []\<rparr>)"

definition fork_store :: store where
  "fork_store =
     (\<lambda>p. no_feature)
       (2 := \<lparr>fid = 2, paths = [linestring [(0, 0), (1, 0)], linestring [(0, 0), (0, 1)]],
               attrs = []\<rparr>)"

definition new_geometry :: geometry where
  "new_geometry = \<lparr>gtype = Unknown, verts = []\<rparr>"

text \<open>Sample data: a candidate from its fields, in the order of the struct.\<close>

definition cand ::
  "position \<Rightarrow> nat \<Rightarrow> nat \<Rightarrow> bool \<Rightarrow> real \<Rightarrow> real \<Rightarrow> real \<Rightarrow> real \<Rightarrow> candidate"
where
  "cand pos i p d x y dx dy =
     \<lparr>m_position = pos, m_index = i, m_parent = p, m_directional = d,
      m_x = x, m_y = y, m_dx = dx, m_dy = dy\<rparr>"

text \<open>
  Sample data: the candidates of four linestrings (0,0)-(1,0), (1,0)-(2,0), (4,0)-(5,0)
  and (5,0)-(6,0) of four features, in the order of the multiset, with the directions
  that the approximator gives them; and the comparator without match tags.
\<close>

definition junction_candidates :: "candidate list" where
  "junction_candidates =
     [cand FRONT 0 2 False 0 0 (- 1) 0, cand BACK 0 2 False 1 0 1 0,
      cand FRONT 0 3 False 1 0 (- 1) 0, cand BACK 0 3 False 2 0 1 0,
      cand FRONT 0 4 False 4 0 (- 1) 0, cand BACK 0 4 False 5 0 1 0,
      cand FRONT 0 5 False 5 0 (- 1) 0, cand BACK 0 5 False 6 0 1 0]"

definition by_endpoint :: "candidate \<Rightarrow> candidate \<Rightarrow> bool" where
  "by_endpoint = candidate_comparator (\<lambda>a b. False) (\<lambda>a b. False) [] (\<lambda>p. no_feature)"

section \<open>Adminizer: layer envelope\<close>

text \<open>
  \<open>adminizer::envelope\<close>. The per-feature envelope (\<open>feature->envelope()\<close>) and the
  default-constructed box are mapnik's and are parameters. The loop carries the local
  \<open>first\<close>, which the source tests in every round and never assigns.
\<close>

fun envelope_loop :: "(feature \<Rightarrow> box2d) \<Rightarrow> feature list \<Rightarrow> bool \<Rightarrow> box2d \<Rightarrow> box2d" where
  "envelope_loop env_of [] first result = result"
| "envelope_loop env_of (f # fs) first result =
     (if first then envelope_loop env_of fs first (env_of f)
      else envelope_loop env_of fs first (expand_to_include result (env_of f)))"

definition envelope :: "(feature \<Rightarrow> box2d) \<Rightarrow> box2d \<Rightarrow> feature list \<Rightarrow> box2d" where
  "envelope env_of dflt layer = envelope_loop env_of layer True dflt"

text \<open>
  The envelope the specification asks for: the first feature's envelope expanded to
  include every later one.
\<close>

fun envelope_union :: "(feature \<Rightarrow> box2d) \<Rightarrow> box2d \<Rightarrow> feature list \<Rightarrow> box2d" where
  "envelope_union env_of dflt [] = dflt"
| "envelope_union env_of dflt (f # fs) =
     fold (\<lambda>g r. expand_to_include r (env_of g)) fs (env_of f)"

text \<open>A feature whose only geometry is one point, and the envelope of such a feature.\<close>

definition point_feature :: "int \<Rightarrow> real \<Rightarrow> real \<Rightarrow> feature" where
  "point_feature i x y =
     \<lparr>fid = i, paths = [\<lparr>gtype = Point, verts = [(x, y, SEG_MOVETO)]\<rparr>], attrs = []\<rparr>"

definition invalid_box :: box2d where
  "invalid_box = \<lparr>minx = 0, miny = 0, maxx = -1, maxy = -1\<rparr>"

definition first_vertex_box :: "feature \<Rightarrow> box2d" where
  "first_vertex_box f =
     (case paths f of
        [] \<Rightarrow> invalid_box
      | g # _ \<Rightarrow>
          (case verts g of
             [] \<Rightarrow> invalid_box
           | (x, y, _) # _ \<Rightarrow> \<lparr>minx = x, miny = y, maxx = x, maxy = y\<rparr>))"

section \<open>Adminizer: lifting geometries\<close>

type_synonym point_2d = "real \<times> real"

record polygon_2d =
  outer :: "point_2d list"
  inners :: "point_2d list list"

datatype boost_geom =
    multi_point_2d "point_2d list"
  | multi_linestring_2d "point_2d list list"
  | polygon_geom polygon_2d

text \<open>
  \<open>adminizer::make_boost_point\<close>: every vertex of the command stream, whatever its
  command, is a point.
\<close>

definition make_boost_point :: "geometry \<Rightarrow> point_2d list" where
  "make_boost_point geom = map (\<lambda>(x, y, c). (x, y)) (verts geom)"

text \<open>
  \<open>adminizer::make_boost_linestring\<close>. The loop state is the multi-linestring built so
  far and \<open>prev_x\<close>, \<open>prev_y\<close>; the \<open>continue\<close> of a duplicate point skips their
  update. A \<open>SEG_LINETO\<close> before any \<open>SEG_MOVETO\<close> calls \<open>back()\<close> on an empty
  vector, which is undefined: the model returns \<open>None\<close> there.
\<close>

fun linestring_loop ::
  "(real \<times> real \<times> cmd) list \<Rightarrow> point_2d list list \<Rightarrow> real \<Rightarrow> real \<Rightarrow> point_2d list list option"
where
  "linestring_loop [] line prev_x prev_y = Some line"
| "linestring_loop ((x, y, c) # vs) line prev_x prev_y =
     (case c of
        SEG_MOVETO \<Rightarrow> linestring_loop vs (line @ [[(x, y)]]) x y
      | SEG_LINETO \<Rightarrow>
          (if \<bar>x - prev_x\<bar> < 1 / 10 ^ 12 \<and> \<bar>y - prev_y\<bar> < 1 / 10 ^ 12
           then linestring_loop vs line prev_x prev_y
           else if line = [] then None
           else linestring_loop vs (butlast line @ [last line @ [(x, y)]]) x y)
      | SEG_CLOSE \<Rightarrow> linestring_loop vs line x y)"

definition make_boost_linestring :: "geometry \<Rightarrow> point_2d list list option" where
  "make_boost_linestring geom = linestring_loop (verts geom) [] 0 0"

text \<open>
  \<open>adminizer::make_boost_polygon\<close>. The first ring is the outer one, every later
  \<open>SEG_MOVETO\<close> opens an inner ring. A \<open>SEG_LINETO\<close> with \<open>ring_count\<close> other than
  1 appends to \<open>inners().back()\<close>, undefined while there is no inner ring.
\<close>

fun polygon_loop ::
  "(real \<times> real \<times> cmd) list \<Rightarrow> polygon_2d \<Rightarrow> real \<Rightarrow> real \<Rightarrow> nat \<Rightarrow> polygon_2d option"
where
  "polygon_loop [] poly prev_x prev_y ring_count = Some poly"
| "polygon_loop ((x, y, c) # vs) poly prev_x prev_y ring_count =
     (case c of
        SEG_MOVETO \<Rightarrow>
          (if ring_count = 0
           then polygon_loop vs (poly\<lparr>outer := outer poly @ [(x, y)]\<rparr>) x y (ring_count + 1)
           else polygon_loop vs (poly\<lparr>inners := inners poly @ [[(x, y)]]\<rparr>) x y (ring_count + 1))
      | SEG_LINETO \<Rightarrow>
          (if \<bar>x - prev_x\<bar> < 1 / 10 ^ 12 \<and> \<bar>y - prev_y\<bar> < 1 / 10 ^ 12
           then polygon_loop vs poly prev_x prev_y ring_count
           else if ring_count = 1
           then polygon_loop vs (poly\<lparr>outer := outer poly @ [(x, y)]\<rparr>) x y ring_count
           else if inners poly = [] then None
           else polygon_loop vs
                  (poly\<lparr>inners := butlast (inners poly) @ [last (inners poly) @ [(x, y)]]\<rparr>)
                  x y ring_count)
      | SEG_CLOSE \<Rightarrow> polygon_loop vs poly x y ring_count)"

definition make_boost_polygon :: "geometry \<Rightarrow> polygon_2d option" where
  "make_boost_polygon geom = polygon_loop (verts geom) \<lparr>outer = [], inners = []\<rparr> 0 0 0"

section \<open>Adminizer: entries\<close>

record entry =
  e_polygon :: polygon_2d
  e_value :: val
  e_index :: "32 word"

text \<open>
  \<open>adminizer::make_entries\<close>. The outer loop walks the features the datasource
  returns, the inner loop their geometries; \<open>entries\<close> and the \<open>unsigned int index\<close>
  are the loop state. The entry's constructor copies its \<open>value&&\<close> argument (a named
  rvalue reference is an lvalue), so \<open>param\<close> keeps its value for every geometry of
  the feature.
\<close>

fun entries_of_paths ::
  "val \<Rightarrow> geometry list \<Rightarrow> entry list \<times> 32 word \<Rightarrow> (entry list \<times> 32 word) option"
where
  "entries_of_paths param [] st = Some st"
| "entries_of_paths param (geom # gs) (entries, index) =
     (if gtype geom = Polygon
      then (case make_boost_polygon geom of
              None \<Rightarrow> None
            | Some p \<Rightarrow>
                entries_of_paths param gs
                  (entries @ [\<lparr>e_polygon = p, e_value = param, e_index = index\<rparr>], index + 1))
      else entries_of_paths param gs (entries, index))"

fun entries_of_features ::
  "string \<Rightarrow> feature list \<Rightarrow> entry list \<times> 32 word \<Rightarrow> (entry list \<times> 32 word) option"
where
  "entries_of_features param_name [] st = Some st"
| "entries_of_features param_name (f # fs) st =
     (case entries_of_paths (get f param_name) (paths f) st of
        None \<Rightarrow> None
      | Some st' \<Rightarrow> entries_of_features param_name fs st')"

text \<open>
  The datasource is mapnik's: \<open>datasource\<close> is the sequence of features that the query
  for an envelope yields, in iteration order.
\<close>

definition make_entries ::
  "(box2d \<Rightarrow> feature list) \<Rightarrow> string \<Rightarrow> box2d \<Rightarrow> entry list option"
where
  "make_entries datasource param_name env =
     map_option fst (entries_of_features param_name (datasource env) ([], 0))"

text \<open>The polygon geometries of the queried features, in the order the loops meet them.\<close>

definition polygon_paths :: "feature \<Rightarrow> geometry list" where
  "polygon_paths f = filter (\<lambda>g. gtype g = Polygon) (paths f)"

section \<open>Adminizer: updater and features\<close>

record param_updater =
  m_feature :: feature
  m_param_name :: string
  m_index :: "32 word"
  m_finished :: bool

definition new_param_updater :: "feature \<Rightarrow> string \<Rightarrow> param_updater" where
  "new_param_updater feat param_name =
     \<lparr>m_feature = feat, m_param_name = param_name, m_index = 4294967295, m_finished = False\<rparr>"

text \<open>\<open>param_updater::operator()\<close>.\<close>

definition update :: "param_updater \<Rightarrow> entry \<Rightarrow> param_updater" where
  "update u e =
     (if e_index e < m_index u
      then u\<lparr>m_feature := put_new (m_param_name u) (e_value e) (m_feature u),
             m_finished := (e_index e = 0),
             m_index := e_index e\<rparr>
      else u)"

text \<open>
  \<open>try_update\<close> with \<open>intersects_iterator\<close>. The R-tree and the precise intersection
  test are boost's: \<open>hits geom entries\<close> is the sequence of entries, in the order the
  index query yields them, whose polygon the test accepts for the lifted geometry. The
  iterator calls the updater on each of them in turn.
\<close>

definition try_update ::
  "(boost_geom \<Rightarrow> entry list \<Rightarrow> entry list) \<Rightarrow> boost_geom \<Rightarrow> entry list \<Rightarrow> param_updater
     \<Rightarrow> param_updater"
where
  "try_update hits geom entries updater = fold (\<lambda>e u. update u e) (hits geom entries) updater"

text \<open>
  The body of the loop of \<open>adminizer::adminize_feature\<close> for one geometry, without
  the exit test.
\<close>

definition adminize_geom ::
  "(boost_geom \<Rightarrow> entry list \<Rightarrow> entry list) \<Rightarrow> entry list \<Rightarrow> geometry \<Rightarrow> param_updater
     \<Rightarrow> param_updater option"
where
  "adminize_geom hits entries geom updater =
     (if gtype geom = Point
      then Some (try_update hits (multi_point_2d (make_boost_point geom)) entries updater)
      else if gtype geom = LineString
      then (case make_boost_linestring geom of
              None \<Rightarrow> None
            | Some l \<Rightarrow> Some (try_update hits (multi_linestring_2d l) entries updater))
      else if gtype geom = Polygon
      then (case make_boost_polygon geom of
              None \<Rightarrow> None
            | Some p \<Rightarrow> Some (try_update hits (polygon_geom p) entries updater))
      else Some updater)"

fun adminize_loop ::
  "(boost_geom \<Rightarrow> entry list \<Rightarrow> entry list) \<Rightarrow> entry list \<Rightarrow> geometry list \<Rightarrow> param_updater
     \<Rightarrow> param_updater option"
where
  "adminize_loop hits entries [] updater = Some updater"
| "adminize_loop hits entries (geom # gs) updater =
     (case adminize_geom hits entries geom updater of
        None \<Rightarrow> None
      | Some u \<Rightarrow> if m_finished u then Some u else adminize_loop hits entries gs u)"

definition adminize_feature ::
  "(boost_geom \<Rightarrow> entry list \<Rightarrow> entry list) \<Rightarrow> string \<Rightarrow> entry list \<Rightarrow> feature \<Rightarrow> feature option"
where
  "adminize_feature hits param_name entries f =
     map_option m_feature
       (adminize_loop hits entries (paths f) (new_param_updater f param_name))"

text \<open>
  \<open>adminizer::process\<close>: the envelope of the layer is the query for the datasource,
  and every feature of the layer is adminized against the entries found.
\<close>

fun adminize_layer ::
  "(boost_geom \<Rightarrow> entry list \<Rightarrow> entry list) \<Rightarrow> string \<Rightarrow> entry list \<Rightarrow> feature list
     \<Rightarrow> feature list option"
where
  "adminize_layer hits param_name entries [] = Some []"
| "adminize_layer hits param_name entries (f # fs) =
     (case adminize_feature hits param_name entries f of
        None \<Rightarrow> None
      | Some f' \<Rightarrow> map_option ((#) f') (adminize_layer hits param_name entries fs))"

definition process ::
  "(boost_geom \<Rightarrow> entry list \<Rightarrow> entry list) \<Rightarrow> (box2d \<Rightarrow> feature list) \<Rightarrow> string
     \<Rightarrow> (feature \<Rightarrow> box2d) \<Rightarrow> box2d \<Rightarrow> feature list \<Rightarrow> feature list option"
where
  "process hits datasource param_name env_of dflt layer =
     (case make_entries datasource param_name (envelope env_of dflt layer) of
        None \<Rightarrow> None
      | Some entries \<Rightarrow> adminize_layer hits param_name entries layer)"

text \<open>
  The entries that a sequence of updater calls writes, in the words of the
  specification: an entry is written when its index is strictly smaller than the best
  index seen so far, which starts at \<open>k\<close> and becomes the index written.
\<close>

fun written :: "32 word \<Rightarrow> entry list \<Rightarrow> entry list" where
  "written k [] = []"
| "written k (e # es) =
     (if e_index e < k then e # written (e_index e) es else written k es)"


text \<open>Sample data: a unit square, and an auxiliary dataset of two features.\<close>

definition square :: geometry where
  "square = \<lparr>gtype = Polygon,
     verts = [(0, 0, SEG_MOVETO), (1, 0, SEG_LINETO), (1, 1, SEG_LINETO), (0, 1, SEG_LINETO),
              (0, 0, SEG_CLOSE)]\<rparr>"

definition unit_square :: polygon_2d where
  "unit_square = \<lparr>outer = [(0, 0), (1, 0), (1, 1), (0, 1)], inners = []\<rparr>"

definition aux_features :: "feature list" where
  "aux_features =
     [\<lparr>fid = 7, paths = [\<lparr>gtype = Point, verts = [(3, 3, SEG_MOVETO)]\<rparr>, square],
        attrs = [(''iso'', value_string ''AA'')]\<rparr>,
      \<lparr>fid = 8, paths = [square, square], attrs = [(''iso'', value_string ''BB'')]\<rparr>]"


section \<open>Layer envelope: results\<close>

lemma envelope_loop_first:
  "envelope_loop env_of fs True r = (if fs = [] then r else env_of (last fs))"
  by (induction fs arbitrary: r) auto

lemma envelope_is_last:
  "layer \<noteq> [] \<Longrightarrow> envelope env_of dflt layer = env_of (last layer)"
  by (simp add: envelope_def envelope_loop_first)

lemma process_queries_last:
  "layer \<noteq> [] \<Longrightarrow>
     process hits datasource param_name env_of dflt layer
       = (case make_entries datasource param_name (env_of (last layer)) of
            None \<Rightarrow> None
          | Some entries \<Rightarrow> adminize_layer hits param_name entries layer)"
  by (simp add: process_def envelope_is_last)

text \<open>
  C1. The envelope that \<open>process\<close> hands to the auxiliary datasource should be the
  union of the envelopes of all features. On a layer of two point features at (0, 0)
  and (5, 5) the code returns the envelope of the second feature alone, the box from
  (5, 5) to (5, 5), and not the union, the box from (0, 0) to (5, 5): the flag
  \<open>first\<close> stays true, so every round overwrites the result.
\<close>

theorem envelope_two_points:
  "envelope first_vertex_box invalid_box [point_feature 1 0 0, point_feature 2 5 5]
     = \<lparr>minx = 5, miny = 5, maxx = 5, maxy = 5\<rparr>
   \<and> envelope_union first_vertex_box invalid_box [point_feature 1 0 0, point_feature 2 5 5]
     = \<lparr>minx = 0, miny = 0, maxx = 5, maxy = 5\<rparr>
   \<and> envelope first_vertex_box invalid_box [point_feature 1 0 0, point_feature 2 5 5]
     \<noteq> envelope_union first_vertex_box invalid_box [point_feature 1 0 0, point_feature 2 5 5]"
  by (simp add: envelope_def first_vertex_box_def point_feature_def expand_to_include_def)


section \<open>Adminizer entries: results\<close>

lemma entries_of_paths_Some:
  "entries_of_paths param gs (es, i) = Some (es', i') \<Longrightarrow>
     \<exists>new. es' = es @ new \<and> i' = i + of_nat (length new)
       \<and> map e_index new = map (\<lambda>k. i + of_nat k) [0..<length new]
       \<and> map (\<lambda>e. (Some (e_polygon e), e_value e)) new
           = map (\<lambda>g. (make_boost_polygon g, param)) (filter (\<lambda>g. gtype g = Polygon) gs)"
proof (induction gs arbitrary: es i)
  case Nil
  then show ?case by simp
next
  case (Cons g gs)
  show ?case
  proof (cases "gtype g = Polygon")
    case False
    with Cons show ?thesis by simp
  next
    case True
    with Cons.prems obtain p where p: "make_boost_polygon g = Some p"
      and run: "entries_of_paths param gs
                  (es @ [\<lparr>e_polygon = p, e_value = param, e_index = i\<rparr>], i + 1) = Some (es', i')"
      by (auto split: option.splits)
    from Cons.IH [OF run] obtain new where new:
      "es' = (es @ [\<lparr>e_polygon = p, e_value = param, e_index = i\<rparr>]) @ new"
      "i' = i + 1 + of_nat (length new)"
      "map e_index new = map (\<lambda>k. i + 1 + of_nat k) [0..<length new]"
      "map (\<lambda>e. (Some (e_polygon e), e_value e)) new
           = map (\<lambda>g. (make_boost_polygon g, param)) (filter (\<lambda>g. gtype g = Polygon) gs)"
      by blast
    let ?new = "\<lparr>e_polygon = p, e_value = param, e_index = i\<rparr> # new"
    have idx: "map e_index ?new = map (\<lambda>k. i + of_nat k) [0..<length ?new]"
    proof -
      have "[0..<length ?new] = 0 # map Suc [0..<length new]"
        by (simp add: upt_conv_Cons map_Suc_upt del: upt_Suc)
      then show ?thesis using new(3) by (simp add: comp_def add.assoc)
    qed
    have "es' = es @ ?new" using new(1) by simp
    moreover have "i' = i + of_nat (length ?new)" using new(2) by (simp add: add.assoc)
    moreover have "map (\<lambda>e. (Some (e_polygon e), e_value e)) ?new
           = map (\<lambda>g. (make_boost_polygon g, param)) (filter (\<lambda>g. gtype g = Polygon) (g # gs))"
      using new(4) True p by simp
    ultimately show ?thesis using idx by blast
  qed
qed


lemma upt_split: "[0..<a + b] = [0..<a] @ map (\<lambda>k. a + k) [0..<b]"
proof -
  have "[0..<a + b] = [0..<a] @ [a..<a + b]"
    by (rule upt_add_eq_append) simp
  moreover have "map (\<lambda>k. a + k) [0..<b] = [a..<a + b]"
    using map_add_upt [of a b] by (simp add: add.commute)
  ultimately show ?thesis by simp
qed

lemma entries_of_features_Some:
  "entries_of_features pn fs (es, i) = Some (es', i') \<Longrightarrow>
     \<exists>new. es' = es @ new \<and> i' = i + of_nat (length new)
       \<and> map e_index new = map (\<lambda>k. i + of_nat k) [0..<length new]
       \<and> map (\<lambda>e. (Some (e_polygon e), e_value e)) new
           = concat (map (\<lambda>f. map (\<lambda>g. (make_boost_polygon g, get f pn)) (polygon_paths f)) fs)"
proof (induction fs arbitrary: es i)
  case Nil
  then show ?case by simp
next
  case (Cons f fs)
  show ?case
  proof (cases "entries_of_paths (get f pn) (paths f) (es, i)")
    case None
    with Cons.prems show ?thesis by simp
  next
    case (Some st1)
    obtain es1 i1 where st1: "st1 = (es1, i1)" by (cases st1)
    have one: "entries_of_paths (get f pn) (paths f) (es, i) = Some (es1, i1)"
      using Some st1 by simp
    have rest: "entries_of_features pn fs (es1, i1) = Some (es', i')"
      using Cons.prems one by simp
    from entries_of_paths_Some [OF one] obtain n1 where n1:
      "es1 = es @ n1" "i1 = i + of_nat (length n1)"
      "map e_index n1 = map (\<lambda>k. i + of_nat k) [0..<length n1]"
      "map (\<lambda>e. (Some (e_polygon e), e_value e)) n1
         = map (\<lambda>g. (make_boost_polygon g, get f pn)) (polygon_paths f)"
      unfolding polygon_paths_def by blast
    from Cons.IH [OF rest] obtain n2 where n2:
      "es' = es1 @ n2" "i' = i1 + of_nat (length n2)"
      "map e_index n2 = map (\<lambda>k. i1 + of_nat k) [0..<length n2]"
      "map (\<lambda>e. (Some (e_polygon e), e_value e)) n2
         = concat (map (\<lambda>f. map (\<lambda>g. (make_boost_polygon g, get f pn)) (polygon_paths f)) fs)"
      by blast
    have upt: "[0..<length (n1 @ n2)] = [0..<length n1] @ map (\<lambda>k. length n1 + k) [0..<length n2]"
      by (simp only: length_append upt_split)
    have "map (\<lambda>k. i + of_nat k) [0..<length (n1 @ n2)]
            = map (\<lambda>k. i + of_nat k) [0..<length n1]
              @ map (\<lambda>k. i + of_nat (length n1) + of_nat k) [0..<length n2]"
      unfolding upt by (simp add: comp_def add.assoc)
    also have "\<dots> = map e_index n1 @ map e_index n2"
      by (simp only: n1(3) n2(3) n1(2))
    finally have idx: "map e_index (n1 @ n2) = map (\<lambda>k. i + of_nat k) [0..<length (n1 @ n2)]"
      by simp
    have a: "es' = es @ (n1 @ n2)" by (simp only: n1(1) n2(1) append_assoc)
    have b: "i' = i + of_nat (length (n1 @ n2))"
      by (simp only: n1(2) n2(2) length_append of_nat_add add.assoc)
    have c: "map (\<lambda>e. (Some (e_polygon e), e_value e)) (n1 @ n2)
         = concat (map (\<lambda>f. map (\<lambda>g. (make_boost_polygon g, get f pn)) (polygon_paths f)) (f # fs))"
      by (simp only: map_append n1(4) n2(4) list.map concat.simps)
    from a b idx c show ?thesis by blast
  qed
qed


lemma entries_of_paths_None:
  "entries_of_paths param gs st = None \<longleftrightarrow>
     (\<exists>g \<in> set gs. gtype g = Polygon \<and> make_boost_polygon g = None)"
proof (induction gs arbitrary: st)
  case Nil
  then show ?case by simp
next
  case (Cons g gs)
  obtain es i where st: "st = (es, i)" by (cases st)
  show ?case unfolding st using Cons.IH by (auto split: option.splits)
qed

lemma entries_of_features_None:
  "entries_of_features pn fs st = None \<longleftrightarrow>
     (\<exists>f \<in> set fs. \<exists>g \<in> set (polygon_paths f). make_boost_polygon g = None)"
proof (induction fs arbitrary: st)
  case Nil
  then show ?case by simp
next
  case (Cons f fs)
  show ?case
  proof (cases "entries_of_paths (get f pn) (paths f) st")
    case None
    then show ?thesis
      using entries_of_paths_None [of "get f pn" "paths f" st]
      by (auto simp: polygon_paths_def)
  next
    case (Some st')
    then have "\<not> (\<exists>g \<in> set (paths f). gtype g = Polygon \<and> make_boost_polygon g = None)"
      using entries_of_paths_None [of "get f pn" "paths f" st] by simp
    then show ?thesis using Some Cons.IH [of st'] by (auto simp: polygon_paths_def)
  qed
qed

text \<open>
  C6. Every entry that \<open>make_entries\<close> builds carries the \<open>param_name\<close> value of
  its source feature and an index that starts at 0 and grows by one with every polygon
  entry (as an \<open>unsigned int\<close>), and only polygon geometries produce entries: the
  entries are, in order, the lifted polygon geometries of the queried features, paired
  with their feature's value. The function returns a result unless the lifting of one
  of these polygons is undefined.
\<close>

theorem make_entries_indexed:
  "(make_entries datasource param_name env = None \<longleftrightarrow>
      (\<exists>f \<in> set (datasource env). \<exists>g \<in> set (polygon_paths f). make_boost_polygon g = None))
   \<and> (\<forall>entries. make_entries datasource param_name env = Some entries \<longrightarrow>
        map e_index entries = map of_nat [0..<length entries]
        \<and> map (\<lambda>e. (Some (e_polygon e), e_value e)) entries
            = concat (map (\<lambda>f. map (\<lambda>g. (make_boost_polygon g, get f param_name))
                               (polygon_paths f)) (datasource env)))"
proof (intro conjI allI impI)
  show "make_entries datasource param_name env = None \<longleftrightarrow>
      (\<exists>f \<in> set (datasource env). \<exists>g \<in> set (polygon_paths f). make_boost_polygon g = None)"
    by (simp add: make_entries_def entries_of_features_None)
next
  fix entries
  assume "make_entries datasource param_name env = Some entries"
  then obtain i' where
    "entries_of_features param_name (datasource env) ([], 0) = Some (entries, i')"
    by (auto simp: make_entries_def)
  from entries_of_features_Some [OF this] obtain new where new:
    "entries = [] @ new"
    "map e_index new = map (\<lambda>k. 0 + of_nat k) [0..<length new]"
    "map (\<lambda>e. (Some (e_polygon e), e_value e)) new
       = concat (map (\<lambda>f. map (\<lambda>g. (make_boost_polygon g, get f param_name))
                          (polygon_paths f)) (datasource env))"
    by blast
  from new(1) have eq: "entries = new" by simp
  show "map e_index entries = map of_nat [0..<length entries]"
    unfolding eq using new(2) by simp
  show "map (\<lambda>e. (Some (e_polygon e), e_value e)) entries
            = concat (map (\<lambda>f. map (\<lambda>g. (make_boost_polygon g, get f param_name))
                               (polygon_paths f)) (datasource env))"
    unfolding eq by (rule new(3))
qed


lemma make_boost_polygon_square: "make_boost_polygon square = Some unit_square"
  by (simp add: make_boost_polygon_def square_def unit_square_def)

lemma make_entries_aux:
  "make_entries (\<lambda>env. aux_features) ''iso'' invalid_box
     = Some [\<lparr>e_polygon = unit_square, e_value = value_string ''AA'', e_index = 0\<rparr>,
             \<lparr>e_polygon = unit_square, e_value = value_string ''BB'', e_index = 1\<rparr>,
             \<lparr>e_polygon = unit_square, e_value = value_string ''BB'', e_index = 2\<rparr>]"
  by (simp add: make_entries_def aux_features_def make_boost_polygon_square get_def)
     (simp add: square_def)

theorem make_entries_indexed_witness:
  "(\<exists>entries. make_entries (\<lambda>env. aux_features) ''iso'' invalid_box = Some entries
      \<and> map e_index entries = [0, 1, 2]
      \<and> map e_value entries = [value_string ''AA'', value_string ''BB'', value_string ''BB''])
   \<and> length (concat (map polygon_paths aux_features)) = 3"
proof -
  have idx: "map of_nat [0..<3] = [0, 1, 2 :: 32 word]"
    by (simp add: upt_conv_Cons)
  have "length (concat (map polygon_paths aux_features)) = 3"
    by (simp add: aux_features_def polygon_paths_def square_def)
  then show ?thesis
    using make_entries_indexed [of "\<lambda>env. aux_features" "''iso''" invalid_box]
      make_entries_aux idx
    by simp
qed

section \<open>Adminizer updater: results\<close>



lemma update_param_name: "m_param_name (update u e) = m_param_name u"
  by (simp add: update_def)


lemma fold_update_index:
  "m_index (fold (\<lambda>e u. update u e) es u)
     = (if written (m_index u) es = [] then m_index u
        else e_index (last (written (m_index u) es)))"
proof (induction es arbitrary: u)
  case Nil
  then show ?case by simp
next
  case (Cons e es)
  show ?case
  proof (cases "e_index e < m_index u")
    case True
    then have "m_index (update u e) = e_index e" by (simp add: update_def)
    then show ?thesis using True Cons.IH [of "update u e"] by simp
  next
    case False
    then have "update u e = u" by (simp add: update_def)
    then show ?thesis using False Cons.IH [of u] by simp
  qed
qed










section \<open>Tag reconciliation: results\<close>

lemma map_of_update_attr: "map_of (update_attr k v al) = (map_of al)(k \<mapsto> v)"
  by (induction al) (auto simp: fun_eq_iff)

lemma keys_update_attr: "fst ` set (update_attr k v al) = insert k (fst ` set al)"
  by (induction al) auto

lemma get_put: "get (put k v f) k' = (if k' = k then v else get f k')"
  by (simp add: get_def put_def map_of_update_attr)

lemma has_key_put: "has_key (put k v f) k' = (k' = k \<or> has_key f k')"
  by (simp add: has_key_def put_def keys_update_attr)

lemma get_put_new: "get (put_new k v f) k' = (if k' = k then v else get f k')"
  by (simp add: get_def put_new_def map_of_update_attr)

lemma has_key_put_new: "has_key (put_new k v f) k' = (k' = k \<or> has_key f k')"
  by (simp add: has_key_def put_new_def keys_update_attr)

lemma get_missing: "\<not> has_key f k \<Longrightarrow> get f k = value_null"
  by (simp add: get_def has_key_def map_of_eq_None_iff [THEN iffD2])

lemma drop_tags_other: "q \<noteq> a \<Longrightarrow> drop_tags differs strategy ks a b h q = h q"
  by (induction ks arbitrary: h) auto

lemma take_tags_other: "q \<noteq> a \<Longrightarrow> take_tags ks a b h q = h q"
  by (induction ks arbitrary: h) auto

lemma put_null_elsewhere:
  assumes "k \<noteq> key"
  shows "has_key ((h(a := put key value_null (h a))) b) k = has_key (h b) k"
    and "get ((h(a := put key value_null (h a))) b) k = get (h b) k"
  using assms by (cases "b = a"; simp add: has_key_put get_put)+

lemma drop_tags_accumulate_get:
  "get (drop_tags differs ACCUMULATE ks a b h a) k
     = (if k \<in> set ks \<and> has_key (h b) k \<and> differs (get (h a) k) (get (h b) k) then value_null
        else get (h a) k)"
proof (induction ks arbitrary: h)
  case Nil
  then show ?case by simp
next
  case (Cons key ks)
  show ?case
  proof (cases "has_key (h b) key \<and> differs (get (h a) key) (get (h b) key)")
    case False
    then have "drop_tags differs ACCUMULATE (key # ks) a b h = drop_tags differs ACCUMULATE ks a b h"
      by auto
    then show ?thesis using Cons.IH [of h] False by auto
  next
    case True
    let ?h1 = "h(a := put key value_null (h a))"
    from True have step:
      "drop_tags differs ACCUMULATE (key # ks) a b h = drop_tags differs ACCUMULATE ks a b ?h1"
      by auto
    show ?thesis
    proof (cases "k = key")
      case same: True
      have "get (?h1 a) key = value_null" by (simp add: get_put)
      then show ?thesis
        unfolding step Cons.IH [of ?h1] using True same by simp
    next
      case other: False
      have a1: "get (?h1 a) k = get (h a) k" using other by (simp add: get_put)
      show ?thesis
        unfolding step Cons.IH [of ?h1] put_null_elsewhere [OF other] a1 using other by simp
    qed
  qed
qed

lemma drop_tags_accumulate_has_key:
  "set ks \<subseteq> fst ` set (attrs (h a)) \<Longrightarrow>
     has_key (drop_tags differs ACCUMULATE ks a b h a) k = has_key (h a) k"
proof (induction ks arbitrary: h)
  case Nil
  then show ?case by simp
next
  case (Cons key ks)
  have key: "has_key (h a) key" using Cons.prems by (simp add: has_key_def)
  show ?case
  proof (cases "has_key (h b) key \<and> differs (get (h a) key) (get (h b) key)")
    case False
    then have "drop_tags differs ACCUMULATE (key # ks) a b h = drop_tags differs ACCUMULATE ks a b h"
      by auto
    then show ?thesis using Cons.IH [of h] Cons.prems by auto
  next
    case True
    let ?h1 = "h(a := put key value_null (h a))"
    from True have step:
      "drop_tags differs ACCUMULATE (key # ks) a b h = drop_tags differs ACCUMULATE ks a b ?h1"
      by auto
    have sub: "set ks \<subseteq> fst ` set (attrs (?h1 a))"
      using Cons.prems by (auto simp: put_def keys_update_attr)
    have "has_key (?h1 a) k = has_key (h a) k"
      using key by (auto simp: has_key_put)
    then show ?thesis
      unfolding step Cons.IH [of ?h1, OF sub] by simp
  qed
qed

lemma take_tags_get:
  "a \<noteq> b \<Longrightarrow>
     get (take_tags ks a b h a) k
       = (if \<not> has_key (h a) k \<and> k \<in> set ks then get (h b) k else get (h a) k)"
proof (induction ks arbitrary: h)
  case Nil
  then show ?case by simp
next
  case (Cons key ks)
  show ?case
  proof (cases "has_key (h a) key")
    case True
    then have "take_tags (key # ks) a b h = take_tags ks a b h" by simp
    then show ?thesis using Cons.IH [OF Cons.prems, of h] True by auto
  next
    case False
    let ?h1 = "h(a := put_new key (get (h b) key) (h a))"
    from False have step: "take_tags (key # ks) a b h = take_tags ks a b ?h1" by simp
    have b1: "?h1 b = h b" using Cons.prems by simp
    have a1: "get (?h1 a) k = (if k = key then get (h b) key else get (h a) k)"
      by (simp add: get_put_new)
    have a2: "has_key (?h1 a) k = (k = key \<or> has_key (h a) k)"
      by (simp add: has_key_put_new)
    show ?thesis
      unfolding step Cons.IH [OF Cons.prems, of ?h1] b1 a1 a2 using False by auto
  qed
qed

lemma take_tags_has_key:
  "has_key (take_tags ks a b h a) k = (has_key (h a) k \<or> k \<in> set ks)"
proof (induction ks arbitrary: h)
  case Nil
  then show ?case by simp
next
  case (Cons key ks)
  show ?case
  proof (cases "has_key (h a) key")
    case True
    then show ?thesis using Cons.IH [of h] by auto
  next
    case False
    let ?h1 = "h(a := put_new key (get (h b) key) (h a))"
    from False have step: "take_tags (key # ks) a b h = take_tags ks a b ?h1" by simp
    have a2: "has_key (?h1 a) k = (k = key \<or> has_key (h a) k)"
      by (simp add: has_key_put_new)
    show ?thesis
      unfolding step Cons.IH [of ?h1] a2 by auto
  qed
qed

lemma take_tags_alias:
  "set ks \<subseteq> fst ` set (attrs (h a)) \<Longrightarrow> take_tags ks a a h = h"
proof (induction ks arbitrary: h)
  case Nil
  then show ?case by simp
next
  case (Cons key ks)
  then show ?case by (simp add: has_key_def)
qed


text \<open>
  C2 (as amended). Under \<open>ACCUMULATE\<close> the destination of a merge ends with the keys of
  both features. A key of the destination that the other feature also has with a
  different value is null; a key of the destination that the other feature lacks keeps
  its value (the source nulls it only under \<open>INTERSECT\<close>); a key that only the other
  feature has is copied with its value. No other feature changes.
\<close>

theorem sanitize_tags_accumulate:
  "has_key (sanitize_tags differs ACCUMULATE couple h (m_parent (fst couple))) k
     = (has_key (h (m_parent (fst couple))) k \<or> has_key (h (m_parent (snd couple))) k)
   \<and> get (sanitize_tags differs ACCUMULATE couple h (m_parent (fst couple))) k
     = (if has_key (h (m_parent (fst couple))) k
        then (if has_key (h (m_parent (snd couple))) k
                 \<and> differs (get (h (m_parent (fst couple))) k) (get (h (m_parent (snd couple))) k)
              then value_null
              else get (h (m_parent (fst couple))) k)
        else get (h (m_parent (snd couple))) k)
   \<and> (q \<noteq> m_parent (fst couple) \<longrightarrow> sanitize_tags differs ACCUMULATE couple h q = h q)"
proof -
  define a where "a = m_parent (fst couple)"
  define b where "b = m_parent (snd couple)"
  define h1 where "h1 = drop_tags differs ACCUMULATE (map fst (attrs (h a))) a b h"
  have san: "sanitize_tags differs ACCUMULATE couple h = take_tags (map fst (attrs (h1 b))) a b h1"
    by (simp add: sanitize_tags_def Let_def a_def b_def h1_def)
  have other: "q \<noteq> a \<longrightarrow> sanitize_tags differs ACCUMULATE couple h q = h q"
    by (simp add: san take_tags_other h1_def drop_tags_other)
  have ka: "k \<in> set (map fst (attrs (h a))) \<longleftrightarrow> has_key (h a) k"
    by (simp add: has_key_def)
  have hk1: "has_key (h1 a) k = has_key (h a) k"
    unfolding h1_def by (rule drop_tags_accumulate_has_key) simp
  have g1: "get (h1 a) k
       = (if has_key (h a) k \<and> has_key (h b) k \<and> differs (get (h a) k) (get (h b) k)
          then value_null else get (h a) k)"
    unfolding h1_def drop_tags_accumulate_get ka ..
  have main: "has_key (sanitize_tags differs ACCUMULATE couple h a) k
       = (has_key (h a) k \<or> has_key (h b) k)
    \<and> get (sanitize_tags differs ACCUMULATE couple h a) k
     = (if has_key (h a) k
        then (if has_key (h b) k \<and> differs (get (h a) k) (get (h b) k) then value_null
              else get (h a) k)
        else get (h b) k)"
  proof (cases "a = b")
    case True
    have "sanitize_tags differs ACCUMULATE couple h = h1"
      by (simp add: san True take_tags_alias)
    then show ?thesis using True hk1 g1 by simp
  next
    case False
    have b1: "h1 b = h b" using False by (simp add: h1_def drop_tags_other)
    have keys_b: "k \<in> set (map fst (attrs (h b))) \<longleftrightarrow> has_key (h b) k"
      by (simp add: has_key_def)
    have hk: "has_key (sanitize_tags differs ACCUMULATE couple h a) k
        = (has_key (h a) k \<or> has_key (h b) k)"
      unfolding san take_tags_has_key b1 keys_b hk1 ..
    have g: "get (sanitize_tags differs ACCUMULATE couple h a) k
       = (if \<not> has_key (h1 a) k \<and> k \<in> set (map fst (attrs (h1 b))) then get (h1 b) k
          else get (h1 a) k)"
      unfolding san by (rule take_tags_get [OF False])
    show ?thesis
    proof (cases "has_key (h a) k")
      case True
      then show ?thesis using hk g g1 hk1 by simp
    next
      case nk: False
      show ?thesis
      proof (cases "has_key (h b) k")
        case True
        then show ?thesis using nk hk g g1 hk1 b1 keys_b by simp
      next
        case False
        then show ?thesis using nk hk g g1 hk1 b1 keys_b by (simp add: get_missing)
      qed
    qed
  qed
  from main other show ?thesis unfolding a_def b_def by blast
qed

theorem sanitize_tags_accumulate_witness:
  "get (sanitize_tags (\<noteq>) ACCUMULATE (cand BACK 0 1 False 1 0 0 0, cand FRONT 0 2 False 1 0 0 0)
          tag_store 1) ''ref'' = value_string ''A1''
   \<and> get (sanitize_tags (\<noteq>) ACCUMULATE (cand BACK 0 1 False 1 0 0 0, cand FRONT 0 2 False 1 0 0 0)
          tag_store 1) ''name'' = value_string ''X''
   \<and> sanitize_tags (\<noteq>) ACCUMULATE (cand BACK 0 1 False 1 0 0 0, cand FRONT 0 2 False 1 0 0 0)
          tag_store 2 = tag_store 2"
proof -
  let ?c = "(cand BACK 0 1 False 1 0 0 0, cand FRONT 0 2 False 1 0 0 0)"
  have p: "m_parent (fst ?c) = 1" "m_parent (snd ?c) = 2" by (simp_all add: cand_def)
  have k: "has_key (tag_store 1) ''ref''" "\<not> has_key (tag_store 2) ''ref''"
    "\<not> has_key (tag_store 1) ''name''" "get (tag_store 1) ''ref'' = value_string ''A1''"
    "get (tag_store 2) ''name'' = value_string ''X''"
    by (simp_all add: tag_store_def has_key_def get_def)
  have ne: "(2::nat) \<noteq> 1" by simp
  from sanitize_tags_accumulate [of "(\<noteq>)" ?c tag_store "''ref''" 2]
  have "get (sanitize_tags (\<noteq>) ACCUMULATE ?c tag_store 1) ''ref'' = value_string ''A1''"
    and "sanitize_tags (\<noteq>) ACCUMULATE ?c tag_store 2 = tag_store 2"
    unfolding p using k ne by simp_all
  moreover from sanitize_tags_accumulate [of "(\<noteq>)" ?c tag_store "''name''" 2]
  have "get (sanitize_tags (\<noteq>) ACCUMULATE ?c tag_store 1) ''name'' = value_string ''X''"
    unfolding p using k by simp
  ultimately show ?thesis by simp
qed

text \<open>
  The claim as stated fails on the third scenario of the specification: the destination
  has \<open>road\<close> and \<open>ref\<close>, the other feature \<open>road\<close> and \<open>name\<close>. The code keeps
  \<open>ref = A1\<close>; the full intersect pass followed by the copy would leave \<open>ref\<close> null.
\<close>

theorem accumulate_keeps_own_tags:
  "attrs (sanitize_tags (\<noteq>) ACCUMULATE (cand BACK 0 1 False 1 0 0 0, cand FRONT 0 2 False 1 0 0 0)
            tag_store 1)
     = [(''road'', value_string ''main''), (''ref'', value_string ''A1''),
        (''name'', value_string ''X'')]
   \<and> attrs (accumulate_spec (\<noteq>) (tag_store 1) (tag_store 2))
     = [(''road'', value_string ''main''), (''ref'', value_null), (''name'', value_string ''X'')]
   \<and> attrs (sanitize_tags (\<noteq>) ACCUMULATE (cand BACK 0 1 False 1 0 0 0, cand FRONT 0 2 False 1 0 0 0)
            tag_store 1)
     \<noteq> attrs (accumulate_spec (\<noteq>) (tag_store 1) (tag_store 2))"
  by (simp add: sanitize_tags_def tag_store_def cand_def Let_def has_key_def get_def put_new_def
        accumulate_spec_def intersect_pass_def)

section \<open>Scores: results\<close>

text \<open>
  Rounding: a real number with at most 53 significant bits in the normal range is a
  double and is returned unchanged; a value between two integers of magnitude up to
  \<open>2^53\<close> rounds to a double between them; and a product just below 1 rounds to 1.
\<close>

lemma exponent_eq:
  assumes "2 powi n \<le> \<bar>x\<bar>" "\<bar>x\<bar> < 2 powi (n + 1)"
  shows "exponent x = n"
proof -
  have pos: "0 < \<bar>x\<bar>" using assms(1) by (smt (verit) zero_less_power_int)
  have "real_of_int n \<le> log 2 \<bar>x\<bar>"
    using assms(1) pos by (simp add: le_log_iff powr_real_of_int')
  moreover have "log 2 \<bar>x\<bar> < real_of_int (n + 1)"
  proof -
    have "(2::real) powr (real_of_int n + 1) = 2 powi (n + 1)"
      using powr_real_of_int' [of "2::real" "n + 1"] by simp
    then show ?thesis using assms(2) pos by (simp add: log_less_iff)
  qed
  ultimately show ?thesis unfolding exponent_def by (simp add: floor_eq_iff)
qed

lemma round_half_even_int: "round_half_even (of_int m) = m"
  by (simp add: round_half_even_def)

lemma double_round_exact:
  assumes "2 powi n \<le> \<bar>x\<bar>" "\<bar>x\<bar> < 2 powi (n + 1)" "- 1022 \<le> n" "n < 1024"
    and "x * 2 powi (52 - n) = of_int m"
  shows "double_round x = Some x"
proof -
  have e: "exponent x = n" using assms(1,2) by (rule exponent_eq)
  have q: "quantum x = 2 powi (n - 52)" using assms(3) by (simp add: quantum_def e max_def)
  have nz: "x \<noteq> 0" using assms(1) by (smt (verit) zero_less_power_int abs_zero)
  have "x / 2 powi (n - 52) = x * 2 powi (52 - n)"
    by (simp add: power_int_diff field_simps)
  then have d: "x / quantum x = of_int m" using assms(5) q by simp
  have restore: "of_int m * quantum x = x"
    using d q by (simp add: field_simps)
  have "\<bar>x\<bar> < 2 powi 1024"
  proof -
    have "(2::real) powi (n + 1) \<le> 2 powi 1024"
      using assms(4) by (intro power_int_increasing) simp_all
    with assms(2) show ?thesis by simp
  qed
  then show ?thesis
    unfolding double_round_def using nz by (simp add: d round_half_even_int restore)
qed

lemma double_round_zero: "double_round 0 = Some 0"
  by (simp add: double_round_def)

lemma round_half_even_le: "q \<le> of_int H \<Longrightarrow> round_half_even q \<le> H"
proof -
  assume h: "q \<le> of_int H"
  have f: "\<lfloor>q\<rfloor> \<le> H" using h by (simp add: floor_le_iff)
  show ?thesis
  proof (cases "round_half_even q = \<lfloor>q\<rfloor>")
    case True
    with f show ?thesis by simp
  next
    case False
    then have up: "round_half_even q = \<lfloor>q\<rfloor> + 1" and "q - of_int \<lfloor>q\<rfloor> \<ge> 1 / 2"
      by (auto simp: round_half_even_def split: if_splits)
    then have "of_int \<lfloor>q\<rfloor> < q" by linarith
    with h have "of_int \<lfloor>q\<rfloor> < (of_int H :: real)" by linarith
    then have "\<lfloor>q\<rfloor> < H" by simp
    with up show ?thesis by simp
  qed
qed

lemma round_half_even_ge: "of_int L \<le> q \<Longrightarrow> L \<le> round_half_even q"
proof -
  assume "of_int L \<le> q"
  then have "L \<le> \<lfloor>q\<rfloor>" by (simp add: le_floor_iff)
  moreover have "\<lfloor>q\<rfloor> \<le> round_half_even q"
    by (simp add: round_half_even_def)
  ultimately show ?thesis by simp
qed

lemma exponent_small:
  assumes "x \<noteq> 0" "\<bar>x\<bar> < 2 ^ 53"
  shows "exponent x \<le> 52"
proof -
  have pos: "0 < \<bar>x\<bar>" using assms(1) by simp
  have "log 2 \<bar>x\<bar> < 53"
    using assms(2) pos by (simp add: log_less_iff)
  then have "\<lfloor>log 2 \<bar>x\<bar>\<rfloor> < 53" by (simp add: floor_less_iff)
  then show ?thesis by (simp add: exponent_def)
qed

lemma double_round_between:
  assumes "of_int L \<le> x" "x \<le> of_int H" "\<bar>x\<bar> < 2 ^ 53"
    and "- (2 ^ 53) \<le> L" "H \<le> 2 ^ 53"
  shows "\<exists>r. double_round x = Some r \<and> of_int L \<le> r \<and> r \<le> of_int H"
proof (cases "x = 0")
  case True
  with assms(1,2) show ?thesis by (simp add: double_round_def)
next
  case False
  define j where "j = nat (52 - max (exponent x) (- 1022))"
  have "max (exponent x) (- 1022) \<le> 52"
    using exponent_small [OF False assms(3)] by simp
  then have k: "max (exponent x) (- 1022) - 52 = - int j" by (simp add: j_def)
  have qu: "quantum x = 1 / 2 ^ j"
    unfolding quantum_def k by (simp add: power_int_minus field_simps)
  have q: "x / quantum x = x * 2 ^ j" by (simp add: qu)
  let ?r = "round_half_even (x * 2 ^ j)"
  have "x * 2 ^ j \<le> of_int (H * 2 ^ j)" using assms(2) by simp
  then have hi: "?r \<le> H * 2 ^ j" by (rule round_half_even_le)
  have "of_int (L * 2 ^ j) \<le> x * 2 ^ j" using assms(1) by simp
  then have lo: "L * 2 ^ j \<le> ?r" by (rule round_half_even_ge)
  have val: "of_int ?r * quantum x = of_int ?r / 2 ^ j" by (simp add: qu)
  have r_hi: "of_int ?r / 2 ^ j \<le> (of_int H :: real)"
  proof -
    have "(of_int ?r :: real) \<le> of_int (H * 2 ^ j)" using hi by (simp only: of_int_le_iff)
    then show ?thesis by (simp add: field_simps)
  qed
  have r_lo: "(of_int L :: real) \<le> of_int ?r / 2 ^ j"
  proof -
    have "(of_int (L * 2 ^ j) :: real) \<le> of_int ?r" using lo by (simp only: of_int_le_iff)
    then show ?thesis by (simp add: field_simps)
  qed
  have "\<bar>of_int ?r / 2 ^ j :: real\<bar> \<le> 2 ^ 53"
  proof -
    have "(of_int H :: real) \<le> 2 ^ 53" using assms(5) by (metis of_int_le_iff of_int_numeral of_int_power)
    moreover have "- (2 ^ 53) \<le> (of_int L :: real)"
      using assms(4) by (metis of_int_le_iff of_int_numeral of_int_power of_int_minus)
    ultimately show ?thesis using r_hi r_lo by linarith
  qed
  moreover have "(2 :: real) ^ 53 < 2 powi 1024" by simp
  ultimately have fin: "\<bar>of_int ?r / 2 ^ j :: real\<bar> < 2 powi 1024" by linarith
  show ?thesis
    unfolding double_round_def using False fin r_hi r_lo by (simp add: q val)
qed

lemma double_round_below_one: "double_round (1 - 1 / 2 ^ 60) = Some 1"
proof -
  define x :: real where "x = 1 - 1 / 2 ^ 60"
  have nz: "x \<noteq> 0" by (simp add: x_def)
  have e: "exponent x = - 1"
    unfolding x_def by (rule exponent_eq) simp_all
  have qu: "quantum x = 1 / 2 ^ 53"
    by (simp add: quantum_def e)
  have q: "x / (1 / 2 ^ 53) = 1152921504606846975 / 128"
    by (simp add: x_def)
  have fl: "\<lfloor>1152921504606846975 / 128 :: real\<rfloor> = 9007199254740991"
    by simp
  have r: "round_half_even (1152921504606846975 / 128) = 9007199254740992"
    unfolding round_half_even_def fl by simp
  have "of_int (round_half_even (x / quantum x)) * quantum x
          = of_int (round_half_even (1152921504606846975 / 128)) * (1 / 2 ^ 53)"
    by (simp only: qu q)
  also have "\<dots> = 1" unfolding r by simp
  finally have val: "of_int (round_half_even (x / quantum x)) * quantum x = 1" .
  have "double_round x = Some 1"
    unfolding double_round_def val using nz by simp
  then show ?thesis by (simp only: x_def)
qed

lemma double_round_exact_values:
  "double_round (1) = Some (1)"
  "double_round (- 1) = Some (- 1)"
  "double_round (2) = Some (2)"
  "double_round (1 / 2) = Some (1 / 2)"
  "double_round (3 / 2) = Some (3 / 2)"
  "double_round (3 / 4) = Some (3 / 4)"
  "double_round (765 / 4) = Some (765 / 4)"
  "double_round (255 / 2) = Some (255 / 2)"
  "double_round (255) = Some (255)"
  "double_round (4) = Some (4)"
  "double_round (5) = Some (5)"
  "double_round (5 / 2) = Some (5 / 2)"
  "double_round (1275 / 2) = Some (1275 / 2)"
proof -
    show "double_round (1) = Some (1)"
      by (rule double_round_exact [where n = "0" and m = "4503599627370496"]) simp_all
    show "double_round (- 1) = Some (- 1)"
      by (rule double_round_exact [where n = "0" and m = "- 4503599627370496"]) simp_all
    show "double_round (2) = Some (2)"
      by (rule double_round_exact [where n = "1" and m = "4503599627370496"]) simp_all
    show "double_round (1 / 2) = Some (1 / 2)"
      by (rule double_round_exact [where n = "- 1" and m = "4503599627370496"]) simp_all
    show "double_round (3 / 2) = Some (3 / 2)"
      by (rule double_round_exact [where n = "0" and m = "6755399441055744"]) simp_all
    show "double_round (3 / 4) = Some (3 / 4)"
      by (rule double_round_exact [where n = "- 1" and m = "6755399441055744"]) simp_all
    show "double_round (765 / 4) = Some (765 / 4)"
      by (rule double_round_exact [where n = "7" and m = "6729011161989120"]) simp_all
    show "double_round (255 / 2) = Some (255 / 2)"
      by (rule double_round_exact [where n = "6" and m = "8972014882652160"]) simp_all
    show "double_round (255) = Some (255)"
      by (rule double_round_exact [where n = "7" and m = "8972014882652160"]) simp_all
    show "double_round (4) = Some (4)"
      by (rule double_round_exact [where n = "2" and m = "4503599627370496"]) simp_all
    show "double_round (5) = Some (5)"
      by (rule double_round_exact [where n = "2" and m = "5629499534213120"]) simp_all
    show "double_round (5 / 2) = Some (5 / 2)"
      by (rule double_round_exact [where n = "1" and m = "5629499534213120"]) simp_all
    show "double_round (1275 / 2) = Some (1275 / 2)"
      by (rule double_round_exact [where n = "9" and m = "5607509301657600"]) simp_all
qed

lemma uint_byte: "0 \<le> k \<Longrightarrow> k < 256 \<Longrightarrow> uint (word_of_int k :: 8 word) = k"
  by (simp add: uint_word_of_int take_bit_eq_mod)

lemma to_score_in_range:
  assumes "- 1 < v" "v < 256"
  shows "\<exists>s. to_score v = Some s \<and> uint s = truncate_toward_zero v \<and> uint s \<le> 255"
proof -
  have lo: "0 \<le> truncate_toward_zero v"
    using assms(1) by (auto simp: truncate_toward_zero_def)
  have hi: "truncate_toward_zero v < 256"
    using assms by (auto simp: truncate_toward_zero_def)
  have "uint (word_of_int (truncate_toward_zero v) :: 8 word) = truncate_toward_zero v"
    using lo hi by (rule uint_byte)
  with assms hi show ?thesis by (simp add: to_score_def)
qed

lemma obtuse_value_unit_range:
  assumes "dot c = Some d" "- 1 \<le> d" "d \<le> 1"
  shows "\<exists>w. obtuse_value c = Some w \<and> 0 \<le> w \<and> w \<le> 255"
proof -
  have "\<exists>r. double_round (d + 1) = Some r \<and> of_int 0 \<le> r \<and> r \<le> of_int 2"
    using assms(2,3) by (intro double_round_between) simp_all
  then obtain r1 where r1: "double_round (d + 1) = Some r1" "0 \<le> r1" "r1 \<le> 2" by auto
  have "\<exists>r. double_round (r1 / 2) = Some r \<and> of_int 0 \<le> r \<and> r \<le> of_int 1"
    using r1(2,3) by (intro double_round_between) simp_all
  then obtain r2 where r2: "double_round (r1 / 2) = Some r2" "0 \<le> r2" "r2 \<le> 1" by auto
  have "\<exists>r. double_round (255 * r2) = Some r \<and> of_int 0 \<le> r \<and> r \<le> of_int 255"
    using r2(2,3) by (intro double_round_between) simp_all
  then obtain w where w: "double_round (255 * r2) = Some w" "0 \<le> w" "w \<le> 255" by auto
  have "obtuse_value c = Some w"
    by (simp add: obtuse_value_def assms(1) dadd_def dmul_def r1(1) r2(1) w(1))
  with w(2,3) show ?thesis by blast
qed

text \<open>
  C4 (as amended). The obtuse score is 255 when either direction vector is (0, 0).
  Otherwise, when the double that the code computes for 255 times half of (dot + 1)
  lies in the range that converts to an unsigned byte, the score is that double
  truncated toward zero, and it lies between 0 and 255. In particular, whenever the
  dot product that the code computes lies between -1 and 1, the double lies between 0
  and 255, and the score is its integer part.
\<close>

theorem obtuse_score_truncates:
  "((m_dx a = 0 \<and> m_dy a = 0) \<or> (m_dx b = 0 \<and> m_dy b = 0) \<longrightarrow>
       obtuse_score (a, b) = Some 255)
   \<and> (\<not> ((m_dx a = 0 \<and> m_dy a = 0) \<or> (m_dx b = 0 \<and> m_dy b = 0))
        \<and> obtuse_value (a, b) = Some v \<and> - 1 < v \<and> v < 256 \<longrightarrow>
        (\<exists>s. obtuse_score (a, b) = Some s
            \<and> uint s = truncate_toward_zero v \<and> 0 \<le> uint s \<and> uint s \<le> 255))
   \<and> (\<not> ((m_dx a = 0 \<and> m_dy a = 0) \<or> (m_dx b = 0 \<and> m_dy b = 0))
        \<and> dot (a, b) = Some d \<and> - 1 \<le> d \<and> d \<le> 1 \<longrightarrow>
        (\<exists>w s. obtuse_value (a, b) = Some w \<and> 0 \<le> w \<and> w \<le> 255
            \<and> obtuse_score (a, b) = Some s \<and> uint s = \<lfloor>w\<rfloor>))"
proof (intro conjI impI)
  assume "(m_dx a = 0 \<and> m_dy a = 0) \<or> (m_dx b = 0 \<and> m_dy b = 0)"
  then show "obtuse_score (a, b) = Some 255"
    by (simp add: obtuse_score_def degenerate_def)
next
  assume h: "\<not> ((m_dx a = 0 \<and> m_dy a = 0) \<or> (m_dx b = 0 \<and> m_dy b = 0))
        \<and> obtuse_value (a, b) = Some v \<and> - 1 < v \<and> v < 256"
  then have nd: "\<not> degenerate (a, b)" by (simp add: degenerate_def)
  from h have r: "- 1 < v" "v < 256" and ov: "obtuse_value (a, b) = Some v"
    by simp_all
  have "obtuse_score (a, b) = to_score v"
    using nd ov by (simp add: obtuse_score_def)
  with to_score_in_range [OF r]
  show "\<exists>s. obtuse_score (a, b) = Some s
            \<and> uint s = truncate_toward_zero v \<and> 0 \<le> uint s \<and> uint s \<le> 255"
    by simp
next
  assume d: "\<not> ((m_dx a = 0 \<and> m_dy a = 0) \<or> (m_dx b = 0 \<and> m_dy b = 0))
        \<and> dot (a, b) = Some d \<and> - 1 \<le> d \<and> d \<le> 1"
  then have nd: "\<not> degenerate (a, b)" by (simp add: degenerate_def)
  from d have "\<exists>w. obtuse_value (a, b) = Some w \<and> 0 \<le> w \<and> w \<le> 255"
    using obtuse_value_unit_range [of "(a, b)" d] by blast
  then obtain w where w: "obtuse_value (a, b) = Some w" "0 \<le> w" "w \<le> 255" by blast
  from w(2) have tr: "truncate_toward_zero w = \<lfloor>w\<rfloor>"
    by (simp add: truncate_toward_zero_def)
  have r: "- 1 < w" "w < 256" using w(2,3) by simp_all
  have "obtuse_score (a, b) = to_score w"
    using nd w(1) by (simp add: obtuse_score_def)
  with to_score_in_range [OF r] tr
  have "\<exists>s. obtuse_score (a, b) = Some s \<and> uint s = \<lfloor>w\<rfloor>" by auto
  with w show "\<exists>w s. obtuse_value (a, b) = Some w \<and> 0 \<le> w \<and> w \<le> 255
            \<and> obtuse_score (a, b) = Some s \<and> uint s = \<lfloor>w\<rfloor>"
    by blast
qed

lemma obtuse_value_three_quarters:
  "dot (cand FRONT 0 2 False 0 0 1 0, cand FRONT 0 3 False 0 0 (1 / 2) 0) = Some (1 / 2)
   \<and> obtuse_value (cand FRONT 0 2 False 0 0 1 0, cand FRONT 0 3 False 0 0 (1 / 2) 0)
       = Some (765 / 4)"
  by (simp add: obtuse_value_def dot_def dadd_def dmul_def cand_def double_round_zero
      double_round_exact_values)

theorem obtuse_score_truncates_witness:
  "(\<exists>s. obtuse_score (cand FRONT 0 2 False 0 0 1 0, cand FRONT 0 3 False 0 0 (1 / 2) 0) = Some s
       \<and> uint s = 191)
   \<and> obtuse_score (cand FRONT 0 2 False 0 0 0 0, cand FRONT 0 3 False 0 0 (1 / 2) 0) = Some 255
   \<and> obtuse_value (cand FRONT 0 2 False 0 0 1 0, cand FRONT 0 3 False 0 0 (1 / 2) 0)
       = Some (765 / 4)
   \<and> (\<exists>w s. obtuse_value (cand FRONT 0 2 False 0 0 1 0, cand FRONT 0 3 False 0 0 (1 / 2) 0)
                = Some w
          \<and> obtuse_score (cand FRONT 0 2 False 0 0 1 0, cand FRONT 0 3 False 0 0 (1 / 2) 0)
                = Some s
          \<and> uint s = \<lfloor>w\<rfloor>)"
proof -
  let ?a = "cand FRONT 0 2 False 0 0 1 0"
  let ?b = "cand FRONT 0 3 False 0 0 (1 / 2) 0"
  let ?z = "cand FRONT 0 2 False 0 0 0 0"
  have d: "dot (?a, ?b) = Some (1 / 2)" and v: "obtuse_value (?a, ?b) = Some (765 / 4)"
    using obtuse_value_three_quarters by simp_all
  have fl: "\<lfloor>765 / 4 :: real\<rfloor> = 191" by (simp add: floor_eq_iff)
  have tr: "truncate_toward_zero (765 / 4) = 191"
    using fl by (simp add: truncate_toward_zero_def)
  have nz: "\<not> ((m_dx ?a = 0 \<and> m_dy ?a = 0) \<or> (m_dx ?b = 0 \<and> m_dy ?b = 0))"
    by (simp add: cand_def)
  have z: "(m_dx ?z = 0 \<and> m_dy ?z = 0) \<or> (m_dx ?b = 0 \<and> m_dy ?b = 0)"
    by (simp add: cand_def)
  have hyp: "\<not> ((m_dx ?a = 0 \<and> m_dy ?a = 0) \<or> (m_dx ?b = 0 \<and> m_dy ?b = 0))
        \<and> obtuse_value (?a, ?b) = Some (765 / 4) \<and> - 1 < (765 / 4 :: real) \<and> (765 / 4 :: real) < 256"
    using nz v by simp
  from obtuse_score_truncates [of ?a ?b "765 / 4"] hyp
  have "\<exists>s. obtuse_score (?a, ?b) = Some s
          \<and> uint s = truncate_toward_zero (765 / 4) \<and> 0 \<le> uint s \<and> uint s \<le> 255"
    by blast
  then have 1: "\<exists>s. obtuse_score (?a, ?b) = Some s \<and> uint s = 191"
    unfolding tr by blast
  from obtuse_score_truncates [of ?z ?b] z
  have 2: "obtuse_score (?z, ?b) = Some 255" by blast
  have hyp3: "\<not> ((m_dx ?a = 0 \<and> m_dy ?a = 0) \<or> (m_dx ?b = 0 \<and> m_dy ?b = 0))
        \<and> dot (?a, ?b) = Some (1 / 2) \<and> - 1 \<le> (1 / 2 :: real) \<and> (1 / 2 :: real) \<le> 1"
    using nz d by simp
  from obtuse_score_truncates [of ?a ?b _ "1 / 2"] hyp3
  have 3: "\<exists>w s. obtuse_value (?a, ?b) = Some w \<and> obtuse_score (?a, ?b) = Some s
             \<and> uint s = \<lfloor>w\<rfloor>"
    by blast
  from 1 2 3 v show ?thesis by blast
qed

text \<open>
  The claim as stated fails for two compatible candidates with the perpendicular
  directions (1, 0) and (0, 1): the dot product is exactly 0, 255 times half of (0 + 1)
  is exactly 127.5 in double arithmetic, and the score is 127.
\<close>

theorem obtuse_score_not_exact:
  "make_couple (cand FRONT 0 2 False 0 0 1 0) (cand FRONT 0 3 False 0 0 0 1)
     = Some (cand FRONT 0 2 False 0 0 1 0, cand FRONT 0 3 False 0 0 0 1)
   \<and> dot (cand FRONT 0 2 False 0 0 1 0, cand FRONT 0 3 False 0 0 0 1) = Some 0
   \<and> obtuse_value (cand FRONT 0 2 False 0 0 1 0, cand FRONT 0 3 False 0 0 0 1) = Some (255 / 2)
   \<and> obtuse_score (cand FRONT 0 2 False 0 0 1 0, cand FRONT 0 3 False 0 0 0 1) = Some 127
   \<and> real_of_int (uint (127 :: 8 word)) \<noteq> 255 / 2"
proof -
  have mc: "make_couple (cand FRONT 0 2 False 0 0 1 0) (cand FRONT 0 3 False 0 0 0 1)
     = Some (cand FRONT 0 2 False 0 0 1 0, cand FRONT 0 3 False 0 0 0 1)"
    by (simp add: make_couple_def cand_def)
  have d: "dot (cand FRONT 0 2 False 0 0 1 0, cand FRONT 0 3 False 0 0 0 1) = Some 0"
    by (simp add: dot_def dadd_def dmul_def cand_def double_round_zero)
  have v: "obtuse_value (cand FRONT 0 2 False 0 0 1 0, cand FRONT 0 3 False 0 0 0 1)
             = Some (255 / 2)"
    by (simp add: obtuse_value_def d dadd_def dmul_def double_round_exact_values)
  have fl: "\<lfloor>255 / 2 :: real\<rfloor> = 127" by (simp add: floor_eq_iff)
  have nd: "\<not> degenerate (cand FRONT 0 2 False 0 0 1 0, cand FRONT 0 3 False 0 0 0 1)"
    by (simp add: degenerate_def cand_def)
  have sc: "obtuse_score (cand FRONT 0 2 False 0 0 1 0, cand FRONT 0 3 False 0 0 0 1) = Some 127"
    by (simp add: obtuse_score_def v nd to_score_def truncate_toward_zero_def fl)
  have ne: "real_of_int (uint (127 :: 8 word)) \<noteq> 255 / 2" by simp
  from mc d v sc ne show ?thesis by blast
qed

text \<open>
  Rounding at work: for the directions (1 + 2^-30, 0) and (1 - 2^-30, 0) the exact
  product is 1 - 2^-60, the double product is 1, and the score is 255.
\<close>

lemma obtuse_score_rounded_product:
  "obtuse_score (cand FRONT 0 2 False 0 0 (1 + 1 / 2 ^ 30) 0,
                 cand FRONT 0 3 False 0 0 (1 - 1 / 2 ^ 30) 0) = Some 255"
proof -
  let ?c = "(cand FRONT 0 2 False 0 0 (1 + 1 / 2 ^ 30) 0,
             cand FRONT 0 3 False 0 0 (1 - 1 / 2 ^ 30) 0)"
  have "(1 + 1 / 2 ^ 30) * (1 - 1 / 2 ^ 30) = (1 - 1 / 2 ^ 60 :: real)" by simp
  then have p: "double_round ((1 + 1 / 2 ^ 30) * (1 - 1 / 2 ^ 30)) = Some 1"
    by (simp only: double_round_below_one)
  have d: "dot ?c = Some 1"
    unfolding dot_def dmul_def dadd_def cand_def
    by (simp only: candidate.simps prod.sel option.case p mult_zero_left
        double_round_zero add_0_right double_round_exact_values)
  have v: "obtuse_value ?c = Some 255"
    unfolding obtuse_value_def d by (simp add: dadd_def dmul_def double_round_exact_values)
  have nd: "\<not> degenerate ?c" by (simp add: degenerate_def cand_def)
  have "obtuse_score ?c = to_score 255"
    by (simp only: obtuse_score_def nd v if_False option.case)
  then show ?thesis by (simp add: to_score_def truncate_toward_zero_def)
qed

text \<open>
  The direction that the approximator returns is not normalised. Two linestrings from
  (0, 0) to (2, 0) give the direction (-2, 0) twice, the dot product 4 and the value
  637.5, which does not convert to an unsigned byte. The directions (1, 0) and (0, 1)
  above are those of the linestrings from (0, 0) to (-1, 0) and to (0, -1).
\<close>

lemma obtuse_score_out_of_range:
  "dot (cand FRONT 0 2 False 0 0 (- 2) 0, cand FRONT 0 3 False 0 0 (- 2) 0) = Some 4
   \<and> obtuse_value (cand FRONT 0 2 False 0 0 (- 2) 0, cand FRONT 0 3 False 0 0 (- 2) 0)
       = Some (1275 / 2)
   \<and> obtuse_score (cand FRONT 0 2 False 0 0 (- 2) 0, cand FRONT 0 3 False 0 0 (- 2) 0) = None"
proof -
  have d: "dot (cand FRONT 0 2 False 0 0 (- 2) 0, cand FRONT 0 3 False 0 0 (- 2) 0) = Some 4"
    by (simp add: dot_def dadd_def dmul_def cand_def double_round_zero double_round_exact_values)
  have v: "obtuse_value (cand FRONT 0 2 False 0 0 (- 2) 0, cand FRONT 0 3 False 0 0 (- 2) 0)
       = Some (1275 / 2)"
    by (simp add: obtuse_value_def d dadd_def dmul_def double_round_exact_values)
  have nd: "\<not> degenerate (cand FRONT 0 2 False 0 0 (- 2) 0, cand FRONT 0 3 False 0 0 (- 2) 0)"
    by (simp add: degenerate_def cand_def)
  have "obtuse_score (cand FRONT 0 2 False 0 0 (- 2) 0, cand FRONT 0 3 False 0 0 (- 2) 0) = None"
    by (simp add: obtuse_score_def v nd to_score_def)
  with d v show ?thesis by blast
qed

lemma approximated_directions:
  "candidate_direction FRONT [(0, 0), (- 1, 0)] (10, 10) = Some (1, 0)
   \<and> candidate_direction FRONT [(0, 0), (0, - 1)] (10, 10) = Some (0, 1)
   \<and> candidate_direction FRONT [(0, 0), (2, 0)] (10, 10) = Some (- 2, 0)"
  by (simp add: candidate_direction_def new_curve_approximator_def consume_def
      get_approximation_def Let_def)

lemma obtuse_score_opposite:
  "obtuse_score (cand p i k d x y 1 0, cand q j l e x' y' (- 1) 0) = Some 0"
proof -
  have dt: "dot (cand p i k d x y 1 0, cand q j l e x' y' (- 1) 0) = Some (- 1)"
    by (simp add: dot_def dadd_def dmul_def cand_def double_round_zero double_round_exact_values)
  have v: "obtuse_value (cand p i k d x y 1 0, cand q j l e x' y' (- 1) 0) = Some 0"
    by (simp add: obtuse_value_def dt dadd_def dmul_def double_round_zero)
  have nd: "\<not> degenerate (cand p i k d x y 1 0, cand q j l e x' y' (- 1) 0)"
    by (simp add: degenerate_def cand_def)
  show ?thesis
    by (simp add: obtuse_score_def v nd to_score_def truncate_toward_zero_def)
qed

lemma byte_complement: "uint (255 - s :: 8 word) = 255 - uint s"
proof -
  have "s \<le> 255"
  proof -
    have e: "(255 :: 8 word) = - 1" by simp
    have "s \<le> - 1" by simp
    then show ?thesis by (simp only: e)
  qed
  then show ?thesis by (simp add: uint_minus_simple_alt)
qed

text \<open>
  C5 (as amended). When neither direction vector is (0, 0), the acute score is 255 minus
  the obtuse score of the same pair, without wrap-around (and it is undefined where the
  obtuse score is). When either direction vector is (0, 0), the acute score is 255, as
  the obtuse score is.
\<close>

theorem acute_score_complement:
  "(\<not> ((m_dx a = 0 \<and> m_dy a = 0) \<or> (m_dx b = 0 \<and> m_dy b = 0)) \<longrightarrow>
      acute_score (a, b) = map_option (\<lambda>s. 255 - s) (obtuse_score (a, b))
      \<and> (\<forall>s. obtuse_score (a, b) = Some s \<longrightarrow>
            (\<exists>t. acute_score (a, b) = Some t \<and> uint t = 255 - uint s)))
   \<and> ((m_dx a = 0 \<and> m_dy a = 0) \<or> (m_dx b = 0 \<and> m_dy b = 0) \<longrightarrow>
      acute_score (a, b) = Some 255 \<and> obtuse_score (a, b) = Some 255)"
proof (intro conjI impI allI)
  assume "\<not> ((m_dx a = 0 \<and> m_dy a = 0) \<or> (m_dx b = 0 \<and> m_dy b = 0))"
  then have "\<not> degenerate (a, b)" by (simp add: degenerate_def)
  then show "acute_score (a, b) = map_option (\<lambda>s. 255 - s) (obtuse_score (a, b))"
    by (simp add: acute_score_def)
next
  fix s
  assume "\<not> ((m_dx a = 0 \<and> m_dy a = 0) \<or> (m_dx b = 0 \<and> m_dy b = 0))"
    and o: "obtuse_score (a, b) = Some s"
  then have "\<not> degenerate (a, b)" by (simp add: degenerate_def)
  with o have "acute_score (a, b) = Some (255 - s)"
    by (simp add: acute_score_def)
  then show "\<exists>t. acute_score (a, b) = Some t \<and> uint t = 255 - uint s"
    by (simp add: byte_complement)
next
  assume "(m_dx a = 0 \<and> m_dy a = 0) \<or> (m_dx b = 0 \<and> m_dy b = 0)"
  then show "acute_score (a, b) = Some 255" and "obtuse_score (a, b) = Some 255"
    by (simp_all add: acute_score_def obtuse_score_def degenerate_def)
qed

theorem acute_score_complement_witness:
  "obtuse_score (cand FRONT 0 1 False 0 0 1 0, cand BACK 0 2 False 0 0 (- 1) 0) = Some 0
   \<and> acute_score (cand FRONT 0 1 False 0 0 1 0, cand BACK 0 2 False 0 0 (- 1) 0) = Some 255
   \<and> acute_score (cand FRONT 0 1 False 0 0 0 0, cand BACK 0 2 False 0 0 (- 1) 0) = Some 255"
proof -
  let ?a = "cand FRONT 0 1 False 0 0 1 0"
  let ?b = "cand BACK 0 2 False 0 0 (- 1) 0"
  let ?z = "cand FRONT 0 1 False 0 0 0 0"
  have o: "obtuse_score (?a, ?b) = Some 0"
    by (rule obtuse_score_opposite)
  have nz: "\<not> ((m_dx ?a = 0 \<and> m_dy ?a = 0) \<or> (m_dx ?b = 0 \<and> m_dy ?b = 0))"
    by (simp add: cand_def)
  have z: "(m_dx ?z = 0 \<and> m_dy ?z = 0) \<or> (m_dx ?b = 0 \<and> m_dy ?b = 0)"
    by (simp add: cand_def)
  from acute_score_complement [of ?a ?b] nz
  have "acute_score (?a, ?b) = map_option (\<lambda>s. 255 - s) (obtuse_score (?a, ?b))" by blast
  then have "acute_score (?a, ?b) = Some 255" unfolding o by simp
  moreover from acute_score_complement [of ?z ?b] z
  have "acute_score (?z, ?b) = Some 255" by blast
  ultimately show ?thesis using o by simp
qed

text \<open>
  The claim as stated fails for a compatible pair in which one direction vector is
  (0, 0): both scores are 255, and 255 minus the obtuse score would be 0.
\<close>

theorem acute_score_degenerate:
  "make_couple (cand FRONT 0 1 False 0 0 0 0) (cand BACK 0 2 False 0 0 (- 1) 0)
     = Some (cand FRONT 0 1 False 0 0 0 0, cand BACK 0 2 False 0 0 (- 1) 0)
   \<and> obtuse_score (cand FRONT 0 1 False 0 0 0 0, cand BACK 0 2 False 0 0 (- 1) 0) = Some 255
   \<and> acute_score (cand FRONT 0 1 False 0 0 0 0, cand BACK 0 2 False 0 0 (- 1) 0) = Some 255
   \<and> acute_score (cand FRONT 0 1 False 0 0 0 0, cand BACK 0 2 False 0 0 (- 1) 0)
       \<noteq> map_option (\<lambda>s. 255 - s)
            (obtuse_score (cand FRONT 0 1 False 0 0 0 0, cand BACK 0 2 False 0 0 (- 1) 0))"
  by (simp add: make_couple_def acute_score_def obtuse_score_def degenerate_def cand_def)

section \<open>Scored pairs: results\<close>

text \<open>
  Whatever the candidates and the scorer, the scores of the map that
  \<open>score_candidates\<close> returns are strictly increasing: the map holds one pair for
  each score.
\<close>

lemma emplace_keys: "fst ` set (emplace k v ps) = insert k (fst ` set ps)"
  by (induction ps) auto

lemma emplace_sorted:
  "sorted_wrt (<) (map fst ps) \<Longrightarrow> sorted_wrt (<) (map fst (emplace k v ps))"
proof (induction ps)
  case Nil
  then show ?case by simp
next
  case (Cons p ps)
  show ?case
  proof (cases "k < fst p")
    case True
    with Cons.prems show ?thesis by auto
  next
    case False
    show ?thesis
    proof (cases "k = fst p")
      case True
      with Cons.prems show ?thesis by simp
    next
      case ne: False
      with False have gt: "fst p < k" by simp
      have "sorted_wrt (<) (map fst (emplace k v ps))"
        using Cons.prems by (intro Cons.IH) simp
      moreover have "\<forall>x \<in> set (map fst (emplace k v ps)). fst p < x"
        using Cons.prems gt by (auto simp: emplace_keys)
      ultimately show ?thesis using False ne by simp
    qed
  qed
qed

lemma score_adjacent_sorted:
  "score_adjacent cmp scorer c ns ps = Some ps' \<Longrightarrow> sorted_wrt (<) (map fst ps)
     \<Longrightarrow> sorted_wrt (<) (map fst ps')"
proof (induction ns arbitrary: ps)
  case Nil
  then show ?case by simp
next
  case (Cons n ns)
  then show ?case
    by (auto split: if_splits option.splits intro: emplace_sorted)
qed

lemma score_loop_sorted:
  "score_loop cmp scorer cs ps = Some ps' \<Longrightarrow> sorted_wrt (<) (map fst ps)
     \<Longrightarrow> sorted_wrt (<) (map fst ps')"
proof (induction cs arbitrary: ps)
  case Nil
  then show ?case by simp
next
  case (Cons c cs)
  then show ?case
    by (auto split: option.splits dest: score_adjacent_sorted)
qed

lemma score_candidates_one_per_score:
  assumes "score_candidates cmp candidates scorer = Some pairs"
  shows "sorted_wrt (<) (map fst pairs)" and "distinct (map fst pairs)"
proof -
  show s: "sorted_wrt (<) (map fst pairs)"
    using assms score_loop_sorted [of cmp scorer candidates "[]" pairs]
    by (simp add: score_candidates_def)
  then show "distinct (map fst pairs)"
    by (simp add: strict_sorted_iff)
qed

text \<open>
  C3. Every compatible pair of every adjacency group should reach the score-ordered
  map, pairs with equal scores included. The map is a \<open>std::map\<close>, whose \<open>emplace\<close>
  does nothing when the score is already a key. On the candidates of two separate
  junctions, each joining the back of one linestring to the front of the next, both
  pairs are compatible and both score 0 under the greedy and the obtuse heuristic (both
  255 under the acute one); the map that \<open>score_candidates\<close> returns holds the first
  pair alone.
\<close>

theorem equal_scores_dropped:
  "compatible_couples by_endpoint junction_candidates
     = [(cand BACK 0 2 False 1 0 1 0, cand FRONT 0 3 False 1 0 (- 1) 0),
        (cand BACK 0 4 False 5 0 1 0, cand FRONT 0 5 False 5 0 (- 1) 0)]
   \<and> greedy_score (cand BACK 0 4 False 5 0 1 0, cand FRONT 0 5 False 5 0 (- 1) 0) = 0
   \<and> obtuse_score (cand BACK 0 4 False 5 0 1 0, cand FRONT 0 5 False 5 0 (- 1) 0) = Some 0
   \<and> acute_score (cand BACK 0 4 False 5 0 1 0, cand FRONT 0 5 False 5 0 (- 1) 0) = Some 255
   \<and> score_candidates by_endpoint junction_candidates (\<lambda>c. Some (greedy_score c))
     = Some [(0, (cand BACK 0 2 False 1 0 1 0, cand FRONT 0 3 False 1 0 (- 1) 0))]
   \<and> score_candidates by_endpoint junction_candidates obtuse_score
     = Some [(0, (cand BACK 0 2 False 1 0 1 0, cand FRONT 0 3 False 1 0 (- 1) 0))]
   \<and> score_candidates by_endpoint junction_candidates acute_score
     = Some [(255, (cand BACK 0 2 False 1 0 1 0, cand FRONT 0 3 False 1 0 (- 1) 0))]"
proof -
  have sc: "greedy_score (cand BACK 0 4 False 5 0 1 0, cand FRONT 0 5 False 5 0 (- 1) 0) = 0"
    "obtuse_score (cand BACK 0 4 False 5 0 1 0, cand FRONT 0 5 False 5 0 (- 1) 0) = Some 0"
    "acute_score (cand BACK 0 4 False 5 0 1 0, cand FRONT 0 5 False 5 0 (- 1) 0) = Some 255"
    "greedy_score (cand BACK 0 2 False 1 0 1 0, cand FRONT 0 3 False 1 0 (- 1) 0) = 0"
    "obtuse_score (cand BACK 0 2 False 1 0 1 0, cand FRONT 0 3 False 1 0 (- 1) 0) = Some 0"
    "acute_score (cand BACK 0 2 False 1 0 1 0, cand FRONT 0 3 False 1 0 (- 1) 0) = Some 255"
  proof -
    have nd: "\<And>p i k d x y q j l e x' y'.
        \<not> degenerate (cand p i k d x y 1 0, cand q j l e x' y' (- 1) 0)"
      by (simp add: degenerate_def cand_def)
    show "greedy_score (cand BACK 0 4 False 5 0 1 0, cand FRONT 0 5 False 5 0 (- 1) 0) = 0"
      and "greedy_score (cand BACK 0 2 False 1 0 1 0, cand FRONT 0 3 False 1 0 (- 1) 0) = 0"
      by (simp_all add: greedy_score_def cand_def)
    show "obtuse_score (cand BACK 0 4 False 5 0 1 0, cand FRONT 0 5 False 5 0 (- 1) 0) = Some 0"
      and "obtuse_score (cand BACK 0 2 False 1 0 1 0, cand FRONT 0 3 False 1 0 (- 1) 0) = Some 0"
      by (rule obtuse_score_opposite)+
    show "acute_score (cand BACK 0 4 False 5 0 1 0, cand FRONT 0 5 False 5 0 (- 1) 0) = Some 255"
      and "acute_score (cand BACK 0 2 False 1 0 1 0, cand FRONT 0 3 False 1 0 (- 1) 0) = Some 255"
      by (simp_all add: acute_score_def nd obtuse_score_opposite)
  qed
  have mc: "\<And>p i k d x y dx dy q j l x' y' dx' dy'.
      make_couple (cand p i k False x y dx dy) (cand q j l False x' y' dx' dy')
        = (if i = j \<and> k = l then None
           else Some (cand p i k False x y dx dy, cand q j l False x' y' dx' dy'))"
    by (simp add: make_couple_def cand_def)
  have cmp': "\<And>p i k d x y dx dy q j l e x' y' dx' dy'.
      by_endpoint (cand p i k d x y dx dy) (cand q j l e x' y' dx' dy')
        = (x < x' \<or> (x = x' \<and> y < y'))"
    by (auto simp: by_endpoint_def candidate_comparator_def cand_def)
  have cc: "compatible_couples by_endpoint junction_candidates
     = [(cand BACK 0 2 False 1 0 1 0, cand FRONT 0 3 False 1 0 (- 1) 0),
        (cand BACK 0 4 False 5 0 1 0, cand FRONT 0 5 False 5 0 (- 1) 0)]"
    by (simp add: junction_candidates_def cmp' mc)
  have g: "score_candidates by_endpoint junction_candidates (\<lambda>c. Some (greedy_score c))
     = Some [(0, (cand BACK 0 2 False 1 0 1 0, cand FRONT 0 3 False 1 0 (- 1) 0))]"
    by (simp add: score_candidates_def junction_candidates_def cmp' mc sc)
  have ob: "score_candidates by_endpoint junction_candidates obtuse_score
     = Some [(0, (cand BACK 0 2 False 1 0 1 0, cand FRONT 0 3 False 1 0 (- 1) 0))]"
    by (simp add: score_candidates_def junction_candidates_def cmp' mc sc)
  have ac: "score_candidates by_endpoint junction_candidates acute_score
     = Some [(255, (cand BACK 0 2 False 1 0 1 0, cand FRONT 0 3 False 1 0 (- 1) 0))]"
    by (simp add: score_candidates_def junction_candidates_def cmp' mc sc)
  from cc sc(1-3) g ob ac show ?thesis by blast
qed

section \<open>One round of unions: results\<close>

lemma erase_geometry_fid:
  "erase_geometry p i h = Some h' \<Longrightarrow> fid (h' q) = fid (h q)"
  by (auto simp: erase_geometry_def split: option.splits)

lemma do_union_fid:
  assumes "do_union new_geom c h = Some (c', h')"
  shows "fid (h' q) = fid (h q)" and "c' = c \<or> c' = (snd c, fst c)"
proof -
  have "fid (h' q) = fid (h q) \<and> (c' = c \<or> c' = (snd c, fst c))"
  proof (cases "m_position (fst c) \<noteq> m_position (snd c)")
    case True
    with assms show ?thesis
      by (auto simp: do_union_def Let_def set_geometry_def
            split: option.splits if_splits dest!: erase_geometry_fid [where q = q])
  next
    case False
    note same = this
    show ?thesis
    proof (cases "m_position (fst c) = BACK")
      case True
      with same assms show ?thesis
        by (auto simp: do_union_def Let_def set_geometry_def
              split: option.splits dest!: erase_geometry_fid [where q = q])
    next
      case False
      with same assms show ?thesis
        by (auto simp: do_union_def Let_def push_back_def
              split: option.splits dest!: erase_geometry_fid [where q = q])
    qed
  qed
  then show "fid (h' q) = fid (h q)" and "c' = c \<or> c' = (snd c, fst c)" by simp_all
qed

lemma drop_tags_fid: "fid (drop_tags differs strategy ks a b h q) = fid (h q)"
  by (induction ks arbitrary: h) (auto simp: put_def)

lemma take_tags_fid: "fid (take_tags ks a b h q) = fid (h q)"
  by (induction ks arbitrary: h) (simp_all add: put_new_def)

lemma sanitize_tags_fid: "fid (sanitize_tags differs strategy c h q) = fid (h q)"
  by (simp add: sanitize_tags_def Let_def drop_tags_fid take_tags_fid)


lemma merges_of_id_store:
  "(\<And>q. fid (h' q) = fid (h q)) \<Longrightarrow> merges_of_id h' i sp = merges_of_id h i sp"
  by (simp add: merges_of_id_def)

lemma merges_of_id_append:
  "merges_of_id h i (sp @ [c])
     = merges_of_id h i sp
       + (if fid (h (m_parent (fst c))) = i \<or> fid (h (m_parent (snd c))) = i then 1 else 0)"
  by (simp add: merges_of_id_def)

lemma merges_of_id_zero:
  assumes "\<forall>c \<in> set sp. fid (h (m_parent (fst c))) \<noteq> i \<and> fid (h (m_parent (snd c))) \<noteq> i"
  shows "merges_of_id h i sp = 0"
  using assms by (simp add: merges_of_id_def)

lemma union_loop_invariant:
  assumes "union_loop differs new_geom strategy scored h U sp = Some (h', U', sp')"
    and "U = ids_of h sp"
    and "\<forall>i. merges_of_id h i sp \<le> 1"
  shows "(\<forall>q. fid (h' q) = fid (h q)) \<and> U' = ids_of h sp' \<and> (\<forall>i. merges_of_id h i sp' \<le> 1)"
  using assms
proof (induction scored arbitrary: h U sp)
  case Nil
  then show ?case by auto
next
  case (Cons entry rest)
  let ?c = "snd entry"
  show ?case
  proof (cases "fid (h (m_parent (fst ?c))) \<in> U \<or> fid (h (m_parent (snd ?c))) \<in> U")
    case True
    with Cons.prems(1) have "union_loop differs new_geom strategy rest h U sp = Some (h', U', sp')"
      by auto
    from Cons.IH [OF this Cons.prems(2,3)] show ?thesis .
  next
    case False
    with Cons.prems(1) obtain c' h1 where du: "do_union new_geom ?c h = Some (c', h1)"
      and run: "union_loop differs new_geom strategy rest (sanitize_tags differs strategy c' h1)
                  (insert (fid (sanitize_tags differs strategy c' h1 (m_parent (snd c'))))
                     (insert (fid (sanitize_tags differs strategy c' h1 (m_parent (fst c')))) U))
                  (sp @ [c']) = Some (h', U', sp')"
      by (auto simp: Let_def split: option.splits)
    let ?h2 = "sanitize_tags differs strategy c' h1"
    have same: "\<And>q. fid (?h2 q) = fid (h q)"
      using do_union_fid(1) [OF du] by (simp add: sanitize_tags_fid)
    have swap: "c' = ?c \<or> c' = (snd ?c, fst ?c)" by (rule do_union_fid(2) [OF du])
    have fresh: "fid (h (m_parent (fst c'))) \<notin> U" "fid (h (m_parent (snd c'))) \<notin> U"
      using False swap by auto
    have U2: "insert (fid (?h2 (m_parent (snd c')))) (insert (fid (?h2 (m_parent (fst c')))) U)
                = ids_of ?h2 (sp @ [c'])"
      using Cons.prems(2) same by (auto simp: ids_of_def)
    have cnt: "\<forall>i. merges_of_id ?h2 i (sp @ [c']) \<le> 1"
    proof
      fix i
      show "merges_of_id ?h2 i (sp @ [c']) \<le> 1"
      proof (cases "fid (h (m_parent (fst c'))) = i \<or> fid (h (m_parent (snd c'))) = i")
        case True
        then have "i \<notin> U" using fresh by auto
        then have "\<forall>c \<in> set sp. fid (h (m_parent (fst c))) \<noteq> i \<and> fid (h (m_parent (snd c))) \<noteq> i"
          using Cons.prems(2) by (auto simp: ids_of_def)
        then have "merges_of_id h i sp = 0" by (rule merges_of_id_zero)
        then show ?thesis
          using True by (simp add: merges_of_id_store [of ?h2 h, OF same] merges_of_id_append same)
      next
        case False
        then show ?thesis
          using Cons.prems(3)
          by (simp add: merges_of_id_store [of ?h2 h, OF same] merges_of_id_append same)
      qed
    qed
    from Cons.IH [OF run U2 cnt]
    have "(\<forall>q. fid (h' q) = fid (?h2 q)) \<and> U' = ids_of ?h2 sp' \<and> (\<forall>i. merges_of_id ?h2 i sp' \<le> 1)" .
    then show ?thesis
      using same by (simp add: ids_of_def merges_of_id_def)
  qed
qed

lemma merges_of_feature_le:
  "merges_of_feature p sp \<le> merges_of_id h (fid (h p)) sp"
proof (induction sp)
  case Nil
  then show ?case by (simp add: merges_of_feature_def merges_of_id_def)
next
  case (Cons c sp)
  then show ?case by (auto simp: merges_of_feature_def merges_of_id_def)
qed

text \<open>
  C8. In one round of \<open>union_candidates\<close> every feature takes part in at most one
  merge: among the couples that are spliced, at most one involves a given feature id,
  hence a given feature. The set \<open>unioned\<close> holds the ids of the spliced couples, a
  pair with an id in that set is skipped, and no id changes during the round.
\<close>

theorem one_merge_per_feature:
  assumes "union_candidates differs new_geom scored strategy ids_tag h = Some (n, h', spliced)"
  shows "(\<forall>i. merges_of_id h i spliced \<le> 1)
    \<and> (\<forall>p. merges_of_feature p spliced \<le> 1)
    \<and> (\<forall>q. fid (h' q) = fid (h q))
    \<and> n = card (ids_of h spliced)
    \<and> (\<forall>entry rest g U sp.
          fid (g (m_parent (fst (snd entry)))) \<in> U \<or> fid (g (m_parent (snd (snd entry)))) \<in> U
          \<longrightarrow> union_loop differs new_geom strategy (entry # rest) g U sp
                = union_loop differs new_geom strategy rest g U sp)"
proof -
  from assms obtain U where run: "union_loop differs new_geom strategy scored h {} [] = Some (h', U, spliced)"
    and n: "n = card U"
    by (auto simp: union_candidates_def)
  have "{} = ids_of h []" by (simp add: ids_of_def)
  moreover have "\<forall>i. merges_of_id h i [] \<le> 1" by (simp add: merges_of_id_def)
  ultimately have inv: "(\<forall>q. fid (h' q) = fid (h q)) \<and> U = ids_of h spliced
      \<and> (\<forall>i. merges_of_id h i spliced \<le> 1)"
    by (rule union_loop_invariant [OF run])
  have "\<forall>p. merges_of_feature p spliced \<le> 1"
  proof
    fix p
    have "merges_of_feature p spliced \<le> merges_of_id h (fid (h p)) spliced"
      by (rule merges_of_feature_le)
    also have "\<dots> \<le> 1" using inv by blast
    finally show "merges_of_feature p spliced \<le> 1" .
  qed
  moreover have "\<forall>entry rest g U sp.
          fid (g (m_parent (fst (snd entry)))) \<in> U \<or> fid (g (m_parent (snd (snd entry)))) \<in> U
          \<longrightarrow> union_loop differs new_geom strategy (entry # rest) g U sp
                = union_loop differs new_geom strategy rest g U sp"
    by simp
  ultimately show ?thesis using inv n by blast
qed

lemma road_round:
  "union_candidates (\<noteq>) new_geometry
      [(0, (cand BACK 0 2 False 1 0 1 0, cand FRONT 0 3 False 1 0 (- 1) 0)),
       (5, (cand BACK 0 3 False 2 0 1 0, cand FRONT 0 4 False 2 0 (- 1) 0))]
      INTERSECT None road_store
     = Some (2,
             road_store
               (2 := \<lparr>fid = 2, paths = [linestring [(0, 0), (1, 0), (2, 0)]], attrs = []\<rparr>,
                3 := \<lparr>fid = 3, paths = [], attrs = []\<rparr>),
             [(cand BACK 0 2 False 1 0 1 0, cand FRONT 0 3 False 1 0 (- 1) 0)])"
proof -
  have du: "do_union new_geometry (cand BACK 0 2 False 1 0 1 0, cand FRONT 0 3 False 1 0 (- 1) 0)
              road_store
    = Some ((cand BACK 0 2 False 1 0 1 0, cand FRONT 0 3 False 1 0 (- 1) 0),
            road_store
               (2 := \<lparr>fid = 2, paths = [linestring [(0, 0), (1, 0), (2, 0)]], attrs = []\<rparr>,
                3 := \<lparr>fid = 3, paths = [], attrs = []\<rparr>))"
    by (simp add: do_union_def cand_def road_store_def get_geometry_def erase_geometry_def
        erase_def set_geometry_def append_forward_def vertex_def line_to_def linestring_def
        Let_def upt_conv_Cons)
  have st: "sanitize_tags (\<noteq>) INTERSECT
              (cand BACK 0 2 False 1 0 1 0, cand FRONT 0 3 False 1 0 (- 1) 0)
              (road_store
                 (2 := \<lparr>fid = 2, paths = [linestring [(0, 0), (1, 0), (2, 0)]], attrs = []\<rparr>,
                  3 := \<lparr>fid = 3, paths = [], attrs = []\<rparr>))
            = road_store
                 (2 := \<lparr>fid = 2, paths = [linestring [(0, 0), (1, 0), (2, 0)]], attrs = []\<rparr>,
                  3 := \<lparr>fid = 3, paths = [], attrs = []\<rparr>)"
    by (simp add: sanitize_tags_def cand_def Let_def)
  have ids: "fid (road_store 2) = 2" "fid (road_store 3) = 3" "fid (road_store 4) = 4"
    by (simp_all add: road_store_def)
  have par: "\<And>p i k d x y dx dy. m_parent (cand p i k d x y dx dy) = k"
    by (simp add: cand_def)
  show ?thesis
    by (simp add: union_candidates_def du st ids par)
qed

theorem one_merge_per_feature_witness:
  "(\<exists>h'. union_candidates (\<noteq>) new_geometry
      [(0, (cand BACK 0 2 False 1 0 1 0, cand FRONT 0 3 False 1 0 (- 1) 0)),
       (5, (cand BACK 0 3 False 2 0 1 0, cand FRONT 0 4 False 2 0 (- 1) 0))]
      INTERSECT None road_store
     = Some (2, h', [(cand BACK 0 2 False 1 0 1 0, cand FRONT 0 3 False 1 0 (- 1) 0)]))
   \<and> merges_of_feature 3 [(cand BACK 0 2 False 1 0 1 0, cand FRONT 0 3 False 1 0 (- 1) 0)] = 1
   \<and> merges_of_feature 4 [(cand BACK 0 2 False 1 0 1 0, cand FRONT 0 3 False 1 0 (- 1) 0)] \<le> 1"
proof -
  have m: "merges_of_feature 3 [(cand BACK 0 2 False 1 0 1 0, cand FRONT 0 3 False 1 0 (- 1) 0)] = 1"
    by (simp add: merges_of_feature_def cand_def)
  from one_merge_per_feature [OF road_round]
  have "merges_of_feature 4 [(cand BACK 0 2 False 1 0 1 0, cand FRONT 0 3 False 1 0 (- 1) 0)] \<le> 1"
    by blast
  with m road_round show ?thesis by blast
qed

section \<open>Front-to-front splice within one feature: results\<close>

lemma erase_twice:
  assumes "i < j" "Suc j < length ps"
  shows "erase i ps = Some (take i ps @ drop (Suc i) ps)"
    and "erase j (take i ps @ drop (Suc i) ps)
           = Some (take i ps @ drop (Suc i) (take (Suc j) ps) @ drop (j + 2) ps)"
proof -
  show "erase i ps = Some (take i ps @ drop (Suc i) ps)"
    using assms by (simp add: erase_def)
  have len: "length (take i ps @ drop (Suc i) ps) = length ps - 1"
    using assms by simp
  have t: "take j (take i ps @ drop (Suc i) ps) = take i ps @ drop (Suc i) (take (Suc j) ps)"
    using assms by (simp add: drop_take min_def)
  have d: "drop (Suc j) (take i ps @ drop (Suc i) ps) = drop (j + 2) ps"
    using assms by (simp add: min_def)
  show "erase j (take i ps @ drop (Suc i) ps)
           = Some (take i ps @ drop (Suc i) (take (Suc j) ps) @ drop (j + 2) ps)"
    unfolding erase_def len using assms t d by simp
qed

lemma erase_last:
  assumes "i < j" "Suc j = length ps"
  shows "erase j (take i ps @ drop (Suc i) ps) = None"
  using assms by (simp add: erase_def)

lemma kept_source:
  assumes "i < j" "Suc j < length ps"
  shows "(take i ps @ drop (Suc i) (take (Suc j) ps) @ drop (j + 2) ps) ! (j - 1) = ps ! j"
proof -
  have l1: "length (take i ps) = i" using assms by simp
  have l2: "length (drop (Suc i) (take (Suc j) ps)) = j - i" using assms by simp
  have k1: "\<not> j - 1 < i" using assms by arith
  have k2: "j - 1 - i < j - i" using assms by arith
  have k3: "Suc i + (j - 1 - i) = j" using assms by arith
  have "(take i ps @ drop (Suc i) (take (Suc j) ps) @ drop (j + 2) ps) ! (j - 1)
          = (drop (Suc i) (take (Suc j) ps) @ drop (j + 2) ps) ! (j - 1 - i)"
    using k1 by (simp only: nth_append l1 if_False)
  also have "\<dots> = drop (Suc i) (take (Suc j) ps) ! (j - 1 - i)"
    using k2 by (simp only: nth_append l2 if_True)
  also have "\<dots> = take (Suc j) ps ! (Suc i + (j - 1 - i))"
    using assms by (intro nth_drop) simp
  also have "\<dots> = ps ! j"
    unfolding k3 by simp
  finally show ?thesis .
qed


lemma do_union_front_front:
  assumes "m_position a = FRONT" "m_position b = FRONT"
  shows "do_union new_geom (a, b) h =
     (case get_geometry (h (m_parent a)) (candidate.m_index a) of
        None \<Rightarrow> None
      | Some src1 \<Rightarrow>
          (case get_geometry (h (m_parent b)) (candidate.m_index b) of
             None \<Rightarrow> None
           | Some src2 \<Rightarrow>
               (case erase_geometry (m_parent a) (candidate.m_index a) h of
                  None \<Rightarrow> None
                | Some h1 \<Rightarrow>
                    (case erase_geometry (m_parent b) (candidate.m_index b) h1 of
                       None \<Rightarrow> None
                     | Some h2 \<Rightarrow>
                         Some ((a, b),
                               h2(m_parent a :=
                                    push_back (append_forward src2 (start_reversed src1 new_geom))
                                      (h2 (m_parent a))))))))"
  using assms by (simp add: do_union_def Let_def)

text \<open>
  C10 (as amended). A front-to-front couple of two linestrings of one feature passes
  the filter when the indices differ and the candidates are not directional, and only
  then. The splice erases the geometry at the first index and then erases at the second
  candidate's stored index in the container that the first erase has shifted. When the
  first index is smaller than
  the second: if the second index was the last position, the second erase is at the
  end of the container (undefined); otherwise it removes the geometry that followed
  the second linestring, and the second linestring, whose vertices were consumed, stays
  in the feature one position lower.
\<close>

theorem front_front_same_feature:
  assumes "m_position a = FRONT" and "m_position b = FRONT"
    and "m_parent a = m_parent b"
    and "candidate.m_index a < candidate.m_index b"
    and "candidate.m_index b < length (paths (h (m_parent a)))"
  shows "(make_couple a b = Some (a, b)) = (\<not> m_directional a \<and> \<not> m_directional b)
    \<and> erase_geometry (m_parent a) (candidate.m_index a) h
        = Some (h(m_parent a := (h (m_parent a))
             \<lparr>paths := take (candidate.m_index a) (paths (h (m_parent a)))
                        @ drop (Suc (candidate.m_index a)) (paths (h (m_parent a)))\<rparr>))
    \<and> (Suc (candidate.m_index b) = length (paths (h (m_parent a))) \<longrightarrow>
         erase_geometry (m_parent b) (candidate.m_index b)
           (h(m_parent a := (h (m_parent a))
             \<lparr>paths := take (candidate.m_index a) (paths (h (m_parent a)))
                        @ drop (Suc (candidate.m_index a)) (paths (h (m_parent a)))\<rparr>)) = None
         \<and> do_union new_geom (a, b) h = None)
    \<and> (Suc (candidate.m_index b) < length (paths (h (m_parent a))) \<longrightarrow>
         do_union new_geom (a, b) h
           = Some ((a, b),
               h(m_parent a := (h (m_parent a))
                 \<lparr>paths := take (candidate.m_index a) (paths (h (m_parent a)))
                     @ drop (Suc (candidate.m_index a))
                         (take (Suc (candidate.m_index b)) (paths (h (m_parent a))))
                     @ drop (candidate.m_index b + 2) (paths (h (m_parent a)))
                     @ [append_forward (paths (h (m_parent a)) ! candidate.m_index b)
                          (start_reversed (paths (h (m_parent a)) ! candidate.m_index a) new_geom)]\<rparr>))
         \<and> (take (candidate.m_index a) (paths (h (m_parent a)))
              @ drop (Suc (candidate.m_index a))
                  (take (Suc (candidate.m_index b)) (paths (h (m_parent a))))
              @ drop (candidate.m_index b + 2) (paths (h (m_parent a)))) ! (candidate.m_index b - 1)
            = paths (h (m_parent a)) ! candidate.m_index b)"
proof -
  define p where "p = m_parent a"
  define i where "i = candidate.m_index a"
  define j where "j = candidate.m_index b"
  define ps where "ps = paths (h p)"
  have pb: "m_parent b = p" using assms(3) p_def by simp
  have ij: "i < j" using assms(4) i_def j_def by simp
  have jn: "j < length ps" using assms(5) ps_def p_def j_def by simp
  have g1: "get_geometry (h p) i = Some (ps ! i)"
    using ij jn by (simp add: get_geometry_def ps_def)
  have g2: "get_geometry (h p) j = Some (ps ! j)"
    using jn by (simp add: get_geometry_def ps_def)
  have e1: "erase_geometry p i h = Some (h(p := (h p)\<lparr>paths := take i ps @ drop (Suc i) ps\<rparr>))"
    using ij jn by (simp add: erase_geometry_def erase_def ps_def)
  have mc: "(make_couple a b = Some (a, b)) = (\<not> m_directional a \<and> \<not> m_directional b)"
    using assms(1,2,4) by (auto simp: make_couple_def)
  have last: "Suc j = length ps \<longrightarrow>
         erase_geometry p j (h(p := (h p)\<lparr>paths := take i ps @ drop (Suc i) ps\<rparr>)) = None
         \<and> do_union new_geom (a, b) h = None"
  proof
    assume l: "Suc j = length ps"
    have e2: "erase_geometry p j (h(p := (h p)\<lparr>paths := take i ps @ drop (Suc i) ps\<rparr>)) = None"
      using erase_last [OF ij l] by (simp add: erase_geometry_def)
    have "do_union new_geom (a, b) h = None"
      unfolding do_union_front_front [OF assms(1,2)]
      using g1 g2 e1 e2 by (simp add: p_def [symmetric] pb i_def [symmetric] j_def [symmetric])
    with e2 show "erase_geometry p j (h(p := (h p)\<lparr>paths := take i ps @ drop (Suc i) ps\<rparr>)) = None
         \<and> do_union new_geom (a, b) h = None" by simp
  qed
  have inner: "Suc j < length ps \<longrightarrow>
         do_union new_geom (a, b) h
           = Some ((a, b),
               h(p := (h p)
                 \<lparr>paths := take i ps @ drop (Suc i) (take (Suc j) ps) @ drop (j + 2) ps
                     @ [append_forward (ps ! j) (start_reversed (ps ! i) new_geom)]\<rparr>))
         \<and> (take i ps @ drop (Suc i) (take (Suc j) ps) @ drop (j + 2) ps) ! (j - 1) = ps ! j"
  proof
    assume l: "Suc j < length ps"
    have e2: "erase_geometry p j (h(p := (h p)\<lparr>paths := take i ps @ drop (Suc i) ps\<rparr>))
        = Some (h(p := (h p)\<lparr>paths := take i ps @ drop (Suc i) (take (Suc j) ps) @ drop (j + 2) ps\<rparr>))"
      using erase_twice(2) [OF ij l] by (simp add: erase_geometry_def)
    have "do_union new_geom (a, b) h
           = Some ((a, b),
               h(p := (h p)
                 \<lparr>paths := take i ps @ drop (Suc i) (take (Suc j) ps) @ drop (j + 2) ps
                     @ [append_forward (ps ! j) (start_reversed (ps ! i) new_geom)]\<rparr>))"
      unfolding do_union_front_front [OF assms(1,2)]
      using g1 g2 e1 e2
      by (simp add: p_def [symmetric] pb i_def [symmetric] j_def [symmetric] push_back_def)
    with kept_source [OF ij l]
    show "do_union new_geom (a, b) h
           = Some ((a, b),
               h(p := (h p)
                 \<lparr>paths := take i ps @ drop (Suc i) (take (Suc j) ps) @ drop (j + 2) ps
                     @ [append_forward (ps ! j) (start_reversed (ps ! i) new_geom)]\<rparr>))
         \<and> (take i ps @ drop (Suc i) (take (Suc j) ps) @ drop (j + 2) ps) ! (j - 1) = ps ! j"
      by simp
  qed
  from mc e1 last inner show ?thesis
    unfolding p_def i_def j_def ps_def pb [unfolded p_def] by blast
qed

theorem front_front_same_feature_witness:
  "make_couple (cand FRONT 0 2 False 0 0 0 0) (cand FRONT 1 2 False 0 0 0 0)
     = Some (cand FRONT 0 2 False 0 0 0 0, cand FRONT 1 2 False 0 0 0 0)
   \<and> do_union new_geometry (cand FRONT 0 2 False 0 0 0 0, cand FRONT 1 2 False 0 0 0 0) fork_store
     = None
   \<and> do_union new_geometry (cand FRONT 0 2 False 0 0 0 0, cand FRONT 1 2 False 0 0 0 0) fan_store
     = Some ((cand FRONT 0 2 False 0 0 0 0, cand FRONT 1 2 False 0 0 0 0),
         fan_store
           (2 := \<lparr>fid = 2,
                   paths = [linestring [(0, 0), (0, 1)],
                            \<lparr>gtype = Unknown,
                             verts = [(1, 0, SEG_MOVETO), (0, 0, SEG_LINETO), (0, 1, SEG_LINETO)]\<rparr>],
                   attrs = []\<rparr>))"
proof -
  let ?a = "cand FRONT 0 2 False 0 0 0 0"
  let ?b = "cand FRONT 1 2 False 0 0 0 0"
  have a: "m_position ?a = FRONT" "m_position ?b = FRONT" "m_parent ?a = m_parent ?b"
    "candidate.m_index ?a < candidate.m_index ?b"
    by (simp_all add: cand_def)
  have sel: "m_parent ?a = 2" "candidate.m_index ?a = 0" "candidate.m_index ?b = 1"
    "\<not> m_directional ?a" "\<not> m_directional ?b"
    by (simp_all add: cand_def)
  have fork: "candidate.m_index ?b < length (paths (fork_store (m_parent ?a)))"
    "Suc (candidate.m_index ?b) = length (paths (fork_store (m_parent ?a)))"
    by (simp_all add: cand_def fork_store_def)
  have fan: "candidate.m_index ?b < length (paths (fan_store (m_parent ?a)))"
    "Suc (candidate.m_index ?b) < length (paths (fan_store (m_parent ?a)))"
    by (simp_all add: cand_def fan_store_def)
  have merged: "append_forward (linestring [(0, 0), (0, 1)])
                  (start_reversed (linestring [(0, 0), (1, 0)]) new_geometry)
      = \<lparr>gtype = Unknown,
         verts = [(1, 0, SEG_MOVETO), (0, 0, SEG_LINETO), (0, 1, SEG_LINETO)]\<rparr>"
    by (simp add: append_forward_def start_reversed_def new_geometry_def linestring_def
        vertex_def move_to_def line_to_def upt_conv_Cons)
  from front_front_same_feature [of ?a ?b fork_store new_geometry, OF a fork(1)] fork(2) sel(4,5)
  have 1: "make_couple ?a ?b = Some (?a, ?b)"
    and 2: "do_union new_geometry (?a, ?b) fork_store = None"
    by blast+
  from front_front_same_feature [of ?a ?b fan_store new_geometry, OF a fan(1)] fan(2)
  have "do_union new_geometry (?a, ?b) fan_store
           = Some ((?a, ?b),
               fan_store(m_parent ?a := (fan_store (m_parent ?a))
                 \<lparr>paths := take (candidate.m_index ?a) (paths (fan_store (m_parent ?a)))
                     @ drop (Suc (candidate.m_index ?a))
                         (take (Suc (candidate.m_index ?b)) (paths (fan_store (m_parent ?a))))
                     @ drop (candidate.m_index ?b + 2) (paths (fan_store (m_parent ?a)))
                     @ [append_forward (paths (fan_store (m_parent ?a)) ! candidate.m_index ?b)
                          (start_reversed (paths (fan_store (m_parent ?a)) ! candidate.m_index ?a)
                             new_geometry)]\<rparr>))"
    by blast
  then have 3: "do_union new_geometry (?a, ?b) fan_store
     = Some ((?a, ?b),
         fan_store
           (2 := \<lparr>fid = 2,
                   paths = [linestring [(0, 0), (0, 1)],
                            \<lparr>gtype = Unknown,
                             verts = [(1, 0, SEG_MOVETO), (0, 0, SEG_LINETO), (0, 1, SEG_LINETO)]\<rparr>],
                   attrs = []\<rparr>))"
    unfolding sel by (simp add: fan_store_def merged)
  from 1 2 3 show ?thesis by blast
qed

text \<open>
  The claim as stated fails for two directional front candidates of one feature with
  the geometry indices 0 and 1: the indices differ, and the filter rejects the couple.
\<close>

theorem directional_front_front_rejected:
  "m_position (cand FRONT 0 2 True 0 0 0 0) = FRONT
   \<and> m_position (cand FRONT 1 2 True 0 0 0 0) = FRONT
   \<and> m_parent (cand FRONT 0 2 True 0 0 0 0) = m_parent (cand FRONT 1 2 True 0 0 0 0)
   \<and> candidate.m_index (cand FRONT 0 2 True 0 0 0 0)
       \<noteq> candidate.m_index (cand FRONT 1 2 True 0 0 0 0)
   \<and> make_couple (cand FRONT 0 2 True 0 0 0 0) (cand FRONT 1 2 True 0 0 0 0) = None"
  by (simp add: make_couple_def cand_def)

section \<open>Configuration: results\<close>

text \<open>
  C7. \<open>create_unionizer\<close> returns an error, and no unionizer, when the requested
  heuristic is not one of greedy, obtuse and acute, when the requested tag strategy is
  not one of intersect and accumulate, and when the sample ratio is not in the interval
  from 0 (excluded) to 0.5 (included); the constructor of the adminizer returns an
  error, and no adminizer, when the configuration has no \<open>param_name\<close>.
\<close>

theorem config_errors:
  "(get_string config ''union_heuristic'' ''greedy'' \<notin> {''greedy'', ''obtuse'', ''acute''} \<longrightarrow>
      (\<exists>e. create_unionizer read_size_t read_double config = Inl e))
   \<and> (get_string config ''tag_strategy'' ''intersect'' \<notin> {''intersect'', ''accumulate''} \<longrightarrow>
      (\<exists>e. create_unionizer read_size_t read_double config = Inl e))
   \<and> (get_converted read_double config ''angle_union_sample_ratio'' (1 / 10) \<le> 0
        \<or> get_converted read_double config ''angle_union_sample_ratio'' (1 / 10) > 1 / 2 \<longrightarrow>
      (\<exists>e. create_unionizer read_size_t read_double config = Inl e))
   \<and> (get_child_optional config ''param_name'' = None \<longrightarrow>
      (\<exists>e. create_adminizer create_datasource config = Inl e))"
proof (intro conjI impI)
  assume "get_string config ''union_heuristic'' ''greedy'' \<notin> {''greedy'', ''obtuse'', ''acute''}"
  then have "map_of string_to_heuristic (get_string config ''union_heuristic'' ''greedy'') = None"
    by (simp add: string_to_heuristic_def)
  then show "\<exists>e. create_unionizer read_size_t read_double config = Inl e"
    by (simp add: create_unionizer_def Let_def)
next
  assume "get_string config ''tag_strategy'' ''intersect'' \<notin> {''intersect'', ''accumulate''}"
  then have "map_of string_to_strategy (get_string config ''tag_strategy'' ''intersect'') = None"
    by (simp add: string_to_strategy_def)
  then show "\<exists>e. create_unionizer read_size_t read_double config = Inl e"
    by (simp add: create_unionizer_def Let_def split: option.splits)
next
  assume "get_converted read_double config ''angle_union_sample_ratio'' (1 / 10) \<le> 0
        \<or> get_converted read_double config ''angle_union_sample_ratio'' (1 / 10) > 1 / 2"
  then show "\<exists>e. create_unionizer read_size_t read_double config = Inl e"
    by (simp add: create_unionizer_def Let_def split: option.splits)
next
  assume "get_child_optional config ''param_name'' = None"
  then show "\<exists>e. create_adminizer create_datasource config = Inl e"
    by (simp add: create_adminizer_def)
qed

theorem config_errors_witness:
  "create_unionizer (\<lambda>s. None) read_half (Ptree [] [(''union_heuristic'', leaf ''longest'')])
     = Inl (runtime_error (''longest is not supported, try `greedy, obtuse or acute'' @ [CHR 0x27]))
   \<and> create_unionizer (\<lambda>s. None) read_half (Ptree [] [(''tag_strategy'', leaf ''union'')])
     = Inl (runtime_error (''union is not supported, try `intersect'' @ [CHR 0x27]))
   \<and> create_unionizer (\<lambda>s. None) read_half
        (Ptree [] [(''angle_union_sample_ratio'', leaf ''0.75'')])
     = Inl (runtime_error ''Please make sure 0 < angle_union_sample_ratio <= .5'')
   \<and> create_adminizer (\<lambda>ps. Inr ps)
        (Ptree [] [(''datasource'', Ptree [] [(''type'', leaf ''shape'')])])
     = Inl (ptree_bad_path ''param_name'')
   \<and> create_unionizer (\<lambda>s. None) read_half
        (Ptree [] [(''angle_union_sample_ratio'', leaf ''0.5''),
                   (''union_heuristic'', leaf ''acute'')])
     = Inr \<lparr>m_heuristic = ACUTE, m_strategy = INTERSECT, m_keep_ids_tag = None,
            m_max_iterations = 18446744073709551615, m_match_tags = {},
            m_preserve_direction_tags = {}, m_angle_union_sample_ratio = 1 / 2\<rparr>"
proof -
  let ?h = "Ptree [] [(''union_heuristic'', leaf ''longest'')]"
  let ?s = "Ptree [] [(''tag_strategy'', leaf ''union'')]"
  let ?r = "Ptree [] [(''angle_union_sample_ratio'', leaf ''0.75'')]"
  let ?p = "Ptree [] [(''datasource'', Ptree [] [(''type'', leaf ''shape'')])]"
  have h: "get_string ?h ''union_heuristic'' ''greedy'' \<notin> {''greedy'', ''obtuse'', ''acute''}"
    by (simp add: get_string_def get_child_optional_def leaf_def)
  have s: "get_string ?s ''tag_strategy'' ''intersect'' \<notin> {''intersect'', ''accumulate''}"
    by (simp add: get_string_def get_child_optional_def leaf_def)
  have r: "get_converted read_half ?r ''angle_union_sample_ratio'' (1 / 10) \<le> 0
        \<or> get_converted read_half ?r ''angle_union_sample_ratio'' (1 / 10) > 1 / 2"
    by (simp add: get_converted_def get_child_optional_def leaf_def read_half_def)
  have p: "get_child_optional ?p ''param_name'' = None"
    by (simp add: get_child_optional_def)
  from config_errors [of ?h "\<lambda>s. None" read_half] h
  have "\<exists>e. create_unionizer (\<lambda>s. None) read_half ?h = Inl e" by blast
  then have 1: "create_unionizer (\<lambda>s. None) read_half ?h
     = Inl (runtime_error (''longest is not supported, try `greedy, obtuse or acute'' @ [CHR 0x27]))"
    by (simp add: create_unionizer_def get_string_def get_child_optional_def leaf_def
      string_to_heuristic_def)
  from config_errors [of ?s "\<lambda>s. None" read_half] s
  have "\<exists>e. create_unionizer (\<lambda>s. None) read_half ?s = Inl e" by blast
  then have 2: "create_unionizer (\<lambda>s. None) read_half ?s
     = Inl (runtime_error (''union is not supported, try `intersect'' @ [CHR 0x27]))"
    by (simp add: create_unionizer_def get_string_def get_child_optional_def leaf_def
      string_to_heuristic_def string_to_strategy_def)
  from config_errors [of ?r "\<lambda>s. None" read_half] r
  have "\<exists>e. create_unionizer (\<lambda>s. None) read_half ?r = Inl e" by blast
  then have 3: "create_unionizer (\<lambda>s. None) read_half ?r
     = Inl (runtime_error ''Please make sure 0 < angle_union_sample_ratio <= .5'')"
    by (simp add: create_unionizer_def get_string_def get_child_optional_def leaf_def
      string_to_heuristic_def string_to_strategy_def get_converted_def read_half_def Let_def)
  from config_errors [of ?p "\<lambda>s. None" read_half "\<lambda>ps. Inr ps"] p
  have "\<exists>e. create_adminizer (\<lambda>ps. Inr ps) ?p = Inl e" by blast
  then have 4: "create_adminizer (\<lambda>ps. Inr ps) ?p = Inl (ptree_bad_path ''param_name'')"
    by (simp add: create_adminizer_def get_child_optional_def)
  have 5: "create_unionizer (\<lambda>s. None) read_half
        (Ptree [] [(''angle_union_sample_ratio'', leaf ''0.5''),
                   (''union_heuristic'', leaf ''acute'')])
     = Inr \<lparr>m_heuristic = ACUTE, m_strategy = INTERSECT, m_keep_ids_tag = None,
            m_max_iterations = 18446744073709551615, m_match_tags = {},
            m_preserve_direction_tags = {}, m_angle_union_sample_ratio = 1 / 2\<rparr>"
    by (simp add: create_unionizer_def get_string_def get_child_optional_def leaf_def
      string_to_heuristic_def string_to_strategy_def get_converted_def read_half_def Let_def
      get_optional_string_def child_values_def)
  from 1 2 3 4 5 show ?thesis by blast
qed

end
